theory Spec2Isabelle
  imports Complex_Main "HOL-Library.Sublist" "HOL-Library.Multiset" "HOL-Library.Log_Nat"
begin

section \<open>Strings as Python sees them\<close>

text \<open>
  The script \<^verbatim>\<open>scripts/azure_idle_report.py\<close> works on Python text strings. A string is
  modelled as the list of its code points, each below 256 (Azure identifiers, names and
  power states are ASCII; the Latin-1 letters are kept so that \<open>lower\<close> is Python's
  \<^verbatim>\<open>str.lower\<close> on every string of this type). A JSON value that is a string or
  \<^verbatim>\<open>null\<close> (or a key that is absent from the dict) is a \<open>string option\<close>.
\<close>

definition lower_char :: "char \<Rightarrow> char" where
  "lower_char c =
     (let n = (of_char c :: nat)
      in if (65 \<le> n \<and> n \<le> 90) \<or> (192 \<le> n \<and> n \<le> 214) \<or> (216 \<le> n \<and> n \<le> 222)
         then char_of (n + 32) else c)"

text \<open>\<^verbatim>\<open>s.lower()\<close>\<close>

definition lower :: "string \<Rightarrow> string" where
  "lower s = map lower_char s"

text \<open>\<^verbatim>\<open>x or ""\<close> for a value that is a string or None.\<close>

fun or_empty :: "string option \<Rightarrow> string" where
  "or_empty None = []"
| "or_empty (Some s) = s"

text \<open>Python truthiness of a value that is a string or None: \<^verbatim>\<open>if x:\<close>.\<close>

fun truthy :: "string option \<Rightarrow> bool" where
  "truthy None = False"
| "truthy (Some s) = (s \<noteq> [])"

text \<open>\<^verbatim>\<open>s.startswith(p)\<close>\<close>

fun startswith :: "string \<Rightarrow> string \<Rightarrow> bool" where
  "startswith s [] = True"
| "startswith [] (p # ps) = False"
| "startswith (c # cs) (p # ps) = (c = p \<and> startswith cs ps)"

text \<open>\<^verbatim>\<open>sub in s\<close>: \<open>sub\<close> occurs in \<open>s\<close> as a contiguous substring.\<close>

fun contains :: "string \<Rightarrow> string \<Rightarrow> bool" where
  "contains sub [] = (sub = [])"
| "contains sub (c # cs) = (startswith (c # cs) sub \<or> contains sub cs)"

section \<open>Python floats\<close>

text \<open>
  A Python float is an IEEE 754 binary64 number. A finite one is modelled as the real it
  denotes, and \<open>round_double x\<close> is the double nearest to the real \<open>x\<close>, ties going to
  the even significand: the result of a correctly rounded operation whose exact result is
  \<open>x\<close> (a float subtraction, the true division of two ints, the conversion of an int).
  \<open>binade x\<close> is the exponent \<open>e\<close> with \<open>2 powi e \<le> \<bar>x\<bar> < 2 powi (e + 1)\<close>; below
  \<open>2 powi - 1022\<close> the spacing is that of the subnormal numbers. A result of magnitude
  \<open>2 ^ 1024\<close> or more is no double: the operation overflows.
\<close>

datatype error = CommandFailed | IndexError | ValueError | TypeError | OverflowError

definition round_half_even :: "real \<Rightarrow> int" where
  "round_half_even q =
     (let f = \<lfloor>q\<rfloor>
      in if q - of_int f < 1 / 2 then f
         else if 1 / 2 < q - of_int f then f + 1
         else if even f then f else f + 1)"

definition binade :: "real \<Rightarrow> int" where
  "binade x =
     (if 1 \<le> \<bar>x\<bar> then bitlen \<lfloor>\<bar>x\<bar>\<rfloor> - 1 else - bitlen (\<lceil>1 / \<bar>x\<bar>\<rceil> - 1))"

definition round_double :: "real \<Rightarrow> real" where
  "round_double x =
     (if x = 0 then 0
      else (let e = max (binade x) (- 1022); ulp = 2 powi (e - 52)
            in of_int (round_half_even (x / ulp)) * ulp))"

text \<open>
  The conversion of a Python int to a float, as in \<^verbatim>\<open>float(n)\<close> and in the arithmetic of
  a float with an int: the nearest double, or \<^verbatim>\<open>OverflowError\<close>.
\<close>

definition float_of_int :: "int \<Rightarrow> error + real" where
  "float_of_int n =
     (let d = round_double (of_int n)
      in if 2 ^ 1024 \<le> \<bar>d\<bar> then Inl OverflowError else Inr d)"

text \<open>
  An aware datetime is the number of microseconds from the epoch to it, an integer.
  \<^verbatim>\<open>dt.timestamp()\<close> is \<^verbatim>\<open>(dt - epoch).total_seconds()\<close>, the true division of the
  microseconds by \<^verbatim>\<open>10**6\<close>: the double nearest to the seconds.
\<close>

definition timestamp :: "int \<Rightarrow> real" where
  "timestamp us = round_double (of_int us / 1000000)"

section \<open>AKS heuristics\<close>

text \<open>
  The compiled pattern \<^verbatim>\<open>_AKS_RG_PATTERN\<close> is an alternation of four sequences of
  single-character atoms, each optionally anchored with \<^verbatim>\<open>^\<close> or \<^verbatim>\<open>$\<close>, compiled
  with \<^verbatim>\<open>re.IGNORECASE\<close>. The model is a matcher for exactly that fragment:
  \<^item> a literal matches a character whose lower-case form is the (lower-case) literal;
    the code points that Python's case-insensitive matching adds for \<open>k\<close> and \<open>s\<close>
    (U+212A, U+017F) lie outside the strings modelled here;
  \<^item> \<^verbatim>\<open>^\<close> (no MULTILINE) matches at the start of the string only;
  \<^item> \<^verbatim>\<open>$\<close> (no MULTILINE) matches at the end of the string and just before a
    newline that ends the string;
  \<^item> \<^verbatim>\<open>search\<close> tries every start position.
\<close>

datatype atom = Lit char | Cls "char list"

fun atom_ok :: "atom \<Rightarrow> char \<Rightarrow> bool" where
  "atom_ok (Lit p) c = (lower_char c = p)"
| "atom_ok (Cls ps) c = (c \<in> set ps)"

text \<open>Match the atoms at the head of the string; the result is what follows the match.\<close>

fun match_here :: "atom list \<Rightarrow> string \<Rightarrow> string option" where
  "match_here [] s = Some s"
| "match_here (a # as) [] = None"
| "match_here (a # as) (c # cs) = (if atom_ok a c then match_here as cs else None)"

record alt =
  anchor_start :: bool
  atoms :: "atom list"
  anchor_end :: bool

definition at_end :: "string \<Rightarrow> bool" where
  "at_end rest = (rest = [] \<or> rest = [CHR 0x0A])"

definition alt_at :: "bool \<Rightarrow> string \<Rightarrow> alt \<Rightarrow> bool" where
  "alt_at is_start s a =
     (if anchor_start a \<and> \<not> is_start then False
      else (case match_here (atoms a) s of
              None \<Rightarrow> False
            | Some rest \<Rightarrow> (if anchor_end a then at_end rest else True)))"

fun search_from :: "alt list \<Rightarrow> bool \<Rightarrow> string \<Rightarrow> bool" where
  "search_from alts is_start [] = list_ex (alt_at is_start []) alts"
| "search_from alts is_start (c # cs) =
     (list_ex (alt_at is_start (c # cs)) alts \<or> search_from alts False cs)"

text \<open>\<^verbatim>\<open>pattern.search(s)\<close>, as a truth value.\<close>

definition re_search :: "alt list \<Rightarrow> string \<Rightarrow> bool" where
  "re_search alts s = search_from alts True s"

definition AKS_RG_PATTERN :: "alt list" where
  "AKS_RG_PATTERN =
     [\<lparr>anchor_start = True, atoms = [Lit CHR ''m'', Lit CHR ''c'', Lit CHR ''_''],
       anchor_end = False\<rparr>,
      \<lparr>anchor_start = False,
       atoms = [Cls ''_-'', Lit CHR ''a'', Lit CHR ''k'', Lit CHR ''s'', Cls ''_-''],
       anchor_end = False\<rparr>,
      \<lparr>anchor_start = True,
       atoms = [Lit CHR ''a'', Lit CHR ''k'', Lit CHR ''s'', Cls ''_-''],
       anchor_end = False\<rparr>,
      \<lparr>anchor_start = False,
       atoms = [Cls ''_-'', Lit CHR ''a'', Lit CHR ''k'', Lit CHR ''s''],
       anchor_end = True\<rparr>]"

text \<open>The three name tests of \<^verbatim>\<open>is_aks_related\<close>, on the lower-cased name.\<close>

definition name_rules :: "string \<Rightarrow> bool" where
  "name_rules n =
     (if startswith n ''pvc-'' then True
      else if contains ''kube'' n \<or> contains ''kube-apiserver.nic'' n \<or> contains ''-pe-'' n
      then True
      else False)"

definition is_aks_related :: "string option \<Rightarrow> string option \<Rightarrow> bool" where
  "is_aks_related nm resource_group =
     (let n = lower (or_empty nm); rg = or_empty resource_group
      in if re_search AKS_RG_PATTERN rg then True else name_rules n)"

section \<open>Inventory\<close>

text \<open>
  One record of an \<^verbatim>\<open>az ... -o json\<close> listing: the dict that the JMESPath projection
  of each collector builds. A key that the projection of a resource kind does not have,
  and a key whose value is \<^verbatim>\<open>null\<close>, are both \<open>None\<close>; every use in the script goes
  through \<^verbatim>\<open>d.get(key)\<close>, which does not tell them apart.
\<close>

record resource =
  raw_id :: "string option"
  raw_name :: "string option"
  raw_resourceGroup :: "string option"
  raw_location :: "string option"
  raw_sizeGb :: "int option"
  raw_sku :: "string option"
  raw_ip :: "string option"
  raw_powerState :: "string option"
  raw_timeCreated :: "string option"
  raw_ageDays :: "int option"

text \<open>
  \<^verbatim>\<open>get_orphaned_disks\<close>: the two listings (\<^verbatim>\<open>managedBy == null\<close>, then
  \<^verbatim>\<open>diskState == 'Unattached'\<close>) are the arguments; the loop over their concatenation
  carries the set \<open>seen\<close> and the list \<open>result\<close>.
\<close>

fun merge_loop :: "resource list \<Rightarrow> string set \<Rightarrow> resource list \<Rightarrow> resource list" where
  "merge_loop [] seen result = result"
| "merge_loop (d # ds) seen result =
     (let rid = lower (or_empty (raw_id d))
      in if rid \<noteq> [] \<and> rid \<notin> seen
         then merge_loop ds (insert rid seen) (result @ [d])
         else merge_loop ds seen result)"

definition get_orphaned_disks :: "resource list \<Rightarrow> resource list \<Rightarrow> resource list" where
  "get_orphaned_disks by_managed by_state = merge_loop (by_managed @ by_state) {} []"

text \<open>\<^verbatim>\<open>get_stopped_not_deallocated_vms\<close>, from the listing of all VMs.\<close>

definition vm_likely :: "resource \<Rightarrow> bool" where
  "vm_likely v =
     (let ps = lower (or_empty (raw_powerState v))
      in contains ''stopped'' ps \<and> \<not> contains ''deallocated'' ps)"

definition get_stopped_not_deallocated_vms :: "resource list \<Rightarrow> resource list" where
  "get_stopped_not_deallocated_vms vms = filter vm_likely vms"

text \<open>
  \<^verbatim>\<open>get_snapshots_older_than_days\<close>. Time is an input: \<open>clock\<close> gives the successive
  readings of \<^verbatim>\<open>datetime.now(timezone.utc)\<close>, each an aware datetime in microseconds
  from the epoch (reading 0 fixes the cutoff, one more reading is taken for each snapshot
  kept). \<open>fromisoformat\<close> stands for the library calls inside the \<^verbatim>\<open>try\<close> that make the
  aware datetime \<^verbatim>\<open>dt\<close>: \<^verbatim>\<open>datetime.fromisoformat\<close> and the UTC default for a naive
  value; \<open>None\<close> is any exception they raise. The cutoff and the timestamp of \<^verbatim>\<open>dt\<close>
  are floats: the comparison of line 229 is between two doubles.
\<close>

text \<open>\<^verbatim>\<open>tc.replace("Z", "+00:00")\<close>\<close>

definition replace_Z :: "string \<Rightarrow> string" where
  "replace_Z tc = concat (map (\<lambda>c. if c = CHR ''Z'' then ''+00:00'' else [c]) tc)"

text \<open>
  \<^verbatim>\<open>int((now - dt).days)\<close>: the difference of two aware datetimes is exact, and the days
  of a timedelta are the floor of its microseconds over those of a day.
\<close>

definition age_days :: "int \<Rightarrow> int \<Rightarrow> int" where
  "age_days now_us dt = (now_us - dt) div 86400000000"

fun snapshot_loop ::
  "(string \<Rightarrow> int option) \<Rightarrow> (nat \<Rightarrow> int) \<Rightarrow> real \<Rightarrow> resource list \<Rightarrow> nat \<Rightarrow>
   resource list \<Rightarrow> resource list" where
  "snapshot_loop fromisoformat clock cutoff [] tick out = out"
| "snapshot_loop fromisoformat clock cutoff (s # ss) tick out =
     (if \<not> truthy (raw_timeCreated s)
      then snapshot_loop fromisoformat clock cutoff ss tick out
      else (case fromisoformat (replace_Z (or_empty (raw_timeCreated s))) of
              None \<Rightarrow> snapshot_loop fromisoformat clock cutoff ss tick out
            | Some dt \<Rightarrow>
                if timestamp dt \<le> cutoff
                then snapshot_loop fromisoformat clock cutoff ss (Suc tick)
                       (out @ [s\<lparr>raw_ageDays := Some (age_days (clock tick) dt)\<rparr>])
                else snapshot_loop fromisoformat clock cutoff ss tick out))"

text \<open>
  The cutoff is \<^verbatim>\<open>now.timestamp() - (days * 86400)\<close>: the product is an exact int, the
  subtraction converts it to a float and rounds the difference.
\<close>

definition get_snapshots_older_than_days ::
  "(string \<Rightarrow> int option) \<Rightarrow> (nat \<Rightarrow> int) \<Rightarrow> int \<Rightarrow> resource list \<Rightarrow>
   error + resource list" where
  "get_snapshots_older_than_days fromisoformat clock days snaps =
     (case float_of_int (days * 86400) of
        Inl e \<Rightarrow> Inl e
      | Inr d \<Rightarrow>
          (let cutoff = round_double (timestamp (clock 0) - d)
           in Inr (snapshot_loop fromisoformat clock cutoff snaps 1 [])))"

section \<open>Cost management\<close>

text \<open>
  A cell of a cost row is a JSON \<^verbatim>\<open>null\<close>, string or number; the number \<open>CNum x\<close>
  is the Python value that \<^verbatim>\<open>json.loads\<close> made of it, an int or a finite float, \<open>x\<close>
  its value. \<^verbatim>\<open>str\<close> of a number and \<^verbatim>\<open>float\<close> of a string are Python library
  conversions, taken as parameters (\<open>None\<close> from \<open>float_of_str\<close> is its
  \<^verbatim>\<open>ValueError\<close>).
\<close>

datatype cell = CNull | CStr string | CNum real

record conv =
  str_of_num :: "real \<Rightarrow> string"
  float_of_str :: "string \<Rightarrow> real option"

fun cell_truthy :: "cell \<Rightarrow> bool" where
  "cell_truthy CNull = False"
| "cell_truthy (CStr s) = (s \<noteq> [])"
| "cell_truthy (CNum x) = (x \<noteq> 0)"

text \<open>\<^verbatim>\<open>str(rid)\<close>\<close>

fun py_str :: "conv \<Rightarrow> cell \<Rightarrow> string" where
  "py_str cv CNull = ''None''"
| "py_str cv (CStr s) = s"
| "py_str cv (CNum x) = str_of_num cv x"

text \<open>
  \<^verbatim>\<open>float(x)\<close>: of a number, the nearest double (the number itself when it is a float
  already), or \<^verbatim>\<open>OverflowError\<close> for an int that is too large.
\<close>

fun py_float :: "conv \<Rightarrow> cell \<Rightarrow> error + real" where
  "py_float cv CNull = Inl TypeError"
| "py_float cv (CNum x) =
     (let d = round_double x in if 2 ^ 1024 \<le> \<bar>d\<bar> then Inl OverflowError else Inr d)"
| "py_float cv (CStr s) = (case float_of_str cv s of None \<Rightarrow> Inl ValueError | Some x \<Rightarrow> Inr x)"

text \<open>\<^verbatim>\<open>float(cost or 0.0)\<close>\<close>

definition float_or_zero :: "conv \<Rightarrow> cell \<Rightarrow> error + real" where
  "float_or_zero cv cost = py_float cv (if cell_truthy cost then cost else CNum 0)"

text \<open>\<^verbatim>\<open>r[i]\<close> for an index that is not negative.\<close>

definition cell_at :: "cell list \<Rightarrow> nat \<Rightarrow> error + cell" where
  "cell_at r i = (if i < length r then Inr (r ! i) else Inl IndexError)"

text \<open>
  The body of a response of \<^verbatim>\<open>az rest\<close>: the \<^verbatim>\<open>properties\<close> dict with its column
  names (the \<^verbatim>\<open>name\<close> of each column dict), rows and continuation link; a key that is
  absent reads as the default of \<^verbatim>\<open>props.get\<close>. \<open>NotADict\<close> is a body that is not a
  dict (\<^verbatim>\<open>run\<close> returns \<^verbatim>\<open>[]\<close> for empty output): its properties are empty.
\<close>

record props =
  columns :: "string option list"
  rows :: "cell list list"
  nextLink :: "string option"

datatype response = NotADict | Resp props

fun props_of :: "response \<Rightarrow> props" where
  "props_of NotADict = \<lparr>columns = [], rows = [], nextLink = None\<rparr>"
| "props_of (Resp p) = p"

text \<open>
  The variables that \<^verbatim>\<open>extract_from_response\<close> updates, and the URIs posted so far
  (the effect of each \<^verbatim>\<open>run\<close>).
\<close>

record pages =
  cols :: "string option list"
  all_rows :: "cell list list"
  requests :: "string list"

definition extract_from_response :: "response \<Rightarrow> pages \<Rightarrow> pages \<times> string option" where
  "extract_from_response r st =
     (let p = props_of r;
          cols' = (if cols st = [] then columns p else cols st)
      in (st\<lparr>cols := cols', all_rows := all_rows st @ rows p\<rparr>, nextLink p))"

text \<open>
  The \<^verbatim>\<open>while next_link:\<close> loop. \<open>post uri\<close> is the \<^verbatim>\<open>az rest\<close> request to
  \<open>uri\<close>: \<open>None\<close> when \<^verbatim>\<open>run\<close> raises, else the body. The loop runs as long as the
  service keeps returning links, so it is a partial function: \<open>None\<close> is a run that does
  not end.
\<close>

partial_function (option) paginate ::
  "(string \<Rightarrow> response option) \<Rightarrow> string option \<Rightarrow> pages \<Rightarrow> pages option" where
  "paginate post next_link st =
     (if truthy next_link
      then (case post (or_empty next_link) of
              None \<Rightarrow> Some (st\<lparr>requests := requests st @ [or_empty next_link]\<rparr>)
            | Some resp \<Rightarrow>
                (case extract_from_response resp
                        (st\<lparr>requests := requests st @ [or_empty next_link]\<rparr>) of
                   (st', next_link') \<Rightarrow> paginate post next_link' st'))
      else Some st)"

definition cost_url :: "string \<Rightarrow> string" where
  "cost_url subscription_id =
     ''https://management.azure.com/subscriptions/'' @ subscription_id @
     ''/providers/Microsoft.CostManagement/query?api-version=2025-03-01''"

text \<open>The first request and the pagination; a failure of the first request is raised.\<close>

definition fetch_pages ::
  "(string \<Rightarrow> response option) \<Rightarrow> string \<Rightarrow> (error + pages) option" where
  "fetch_pages post subscription_id =
     (let url = cost_url subscription_id
      in case post url of
           None \<Rightarrow> Some (Inl CommandFailed)
         | Some resp \<Rightarrow>
             (case extract_from_response resp \<lparr>cols = [], all_rows = [], requests = [url]\<rparr> of
                (st, next_link) \<Rightarrow> map_option Inr (paginate post next_link st)))"

text \<open>The loop over \<^verbatim>\<open>enumerate(cols)\<close>: the indices of the three columns.\<close>

record indices =
  idx_cost :: "nat option"
  idx_rid :: "nat option"
  idx_currency :: "nat option"

fun find_indices :: "string option list \<Rightarrow> nat \<Rightarrow> indices \<Rightarrow> indices" where
  "find_indices [] i ix = ix"
| "find_indices (c # cs) i ix =
     (let nm = lower (or_empty c)
      in if nm = ''pretaxcost'' then find_indices cs (Suc i) (ix\<lparr>idx_cost := Some i\<rparr>)
         else if nm = ''resourceid'' then find_indices cs (Suc i) (ix\<lparr>idx_rid := Some i\<rparr>)
         else if nm = ''currency'' then find_indices cs (Suc i) (ix\<lparr>idx_currency := Some i\<rparr>)
         else find_indices cs (Suc i) ix)"

text \<open>The loop over \<^verbatim>\<open>all_rows\<close>, carrying \<^verbatim>\<open>cost_map\<close> and \<^verbatim>\<open>currency\<close>.\<close>

fun index_rows ::
  "conv \<Rightarrow> nat \<Rightarrow> nat \<Rightarrow> nat option \<Rightarrow> cell list list \<Rightarrow> (string \<rightharpoonup> real) \<Rightarrow> cell \<Rightarrow>
   error + ((string \<rightharpoonup> real) \<times> cell)" where
  "index_rows cv ic ir icur [] cost_map currency = Inr (cost_map, currency)"
| "index_rows cv ic ir icur (r # rs) cost_map currency =
     (case cell_at r ir of
        Inl e \<Rightarrow> Inl e
      | Inr rid \<Rightarrow>
          (case cell_at r ic of
             Inl e \<Rightarrow> Inl e
           | Inr cost \<Rightarrow>
               (case (case icur of None \<Rightarrow> Inr currency | Some i \<Rightarrow> cell_at r i) of
                  Inl e \<Rightarrow> Inl e
                | Inr currency' \<Rightarrow>
                    if \<not> cell_truthy rid then index_rows cv ic ir icur rs cost_map currency'
                    else (case float_or_zero cv cost of
                            Inl e \<Rightarrow> Inl e
                          | Inr v \<Rightarrow>
                              index_rows cv ic ir icur rs
                                (cost_map(lower (py_str cv rid) \<mapsto> v)) currency'))))"

text \<open>
  What \<^verbatim>\<open>get_cost_map_last30d_by_resource_id\<close> does after the pagination, from the
  columns and rows it has accumulated.
\<close>

definition index_of ::
  "conv \<Rightarrow> string option list \<Rightarrow> cell list list \<Rightarrow> error + ((string \<rightharpoonup> real) \<times> cell)" where
  "index_of cv cs rs =
     (let ix = find_indices cs 0 \<lparr>idx_cost = None, idx_rid = None, idx_currency = None\<rparr>
      in case (idx_cost ix, idx_rid ix) of
           (Some ic, Some ir) \<Rightarrow> index_rows cv ic ir (idx_currency ix) rs Map.empty CNull
         | _ \<Rightarrow> Inr (Map.empty, CNull))"

definition get_cost_map_last30d_by_resource_id ::
  "conv \<Rightarrow> (string \<Rightarrow> response option) \<Rightarrow> string \<Rightarrow>
   (error + ((string \<rightharpoonup> real) \<times> cell)) option" where
  "get_cost_map_last30d_by_resource_id cv post subscription_id =
     (case fetch_pages post subscription_id of
        None \<Rightarrow> None
      | Some (Inl e) \<Rightarrow> Some (Inl e)
      | Some (Inr st) \<Rightarrow> Some (index_of cv (cols st) (all_rows st)))"

section \<open>Structured output\<close>

text \<open>
  The item dict that \<^verbatim>\<open>main\<close> builds for a resource; a key that the dict of a
  resource kind does not have is \<open>None\<close>. The \<^verbatim>\<open>currency\<close> is the cell \<^verbatim>\<open>main\<close>
  got from the cost lookup (\<open>CNull\<close> for \<^verbatim>\<open>None\<close>).
\<close>

record item =
  resourceType :: string
  name :: "string option"
  resourceGroup :: "string option"
  location :: "string option"
  sizeGb :: "int option"
  sku :: "string option"
  ip :: "string option"
  powerState :: "string option"
  ageDays :: "int option"
  resourceId :: "string option"
  costLast30d :: "real option"
  currency :: cell
  remediation :: string

text \<open>
  An entry of \<^verbatim>\<open>build_findings\<close>: the three keys written first, then \<^verbatim>\<open>**item\<close>. No
  item has a key \<^verbatim>\<open>subscription\<close>, \<^verbatim>\<open>subscriptionId\<close> or \<^verbatim>\<open>bucket\<close>, so the
  unpacking overwrites none of the three.
\<close>

record finding = item +
  subscription :: string
  subscriptionId :: "string option"
  bucket :: string

definition entry :: "string \<Rightarrow> string option \<Rightarrow> string \<Rightarrow> item \<Rightarrow> finding" where
  "entry subscription_name subscription_id b it =
     item.extend it
       \<lparr>subscription = subscription_name, subscriptionId = subscription_id, bucket = b\<rparr>"

definition build_findings ::
  "string \<Rightarrow> string option \<Rightarrow> item list \<Rightarrow> item list \<Rightarrow> item list \<Rightarrow> finding list" where
  "build_findings subscription_name subscription_id immediate_lines review_lines snapshot_lines =
     map (entry subscription_name subscription_id ''immediate'') immediate_lines @
     map (entry subscription_name subscription_id ''aks_review'') review_lines @
     map (entry subscription_name subscription_id ''snapshot_review'') snapshot_lines"

definition remediation_hint :: "string \<Rightarrow> string option \<Rightarrow> string" where
  "remediation_hint resource_type resource_id =
     (if \<not> truthy resource_id then []
      else (case map_of
                  [(''disk'', ''az disk delete --ids '' @ or_empty resource_id @ '' --yes''),
                   (''publicIp'', ''az network public-ip delete --ids '' @ or_empty resource_id),
                   (''nic'', ''az network nic delete --ids '' @ or_empty resource_id),
                   (''vm'', ''az vm deallocate --ids '' @ or_empty resource_id),
                   (''snapshot'', ''az snapshot delete --ids '' @ or_empty resource_id)]
                  resource_type of
              None \<Rightarrow> []
            | Some h \<Rightarrow> h))"

section \<open>The body of the subscription loop of main\<close>

text \<open>
  The command-line switches the loop reads, and the variables it updates for one
  subscription. The console lines and the counters of \<^verbatim>\<open>grand_counts\<close> are written
  next to the items and read by no item; they are left out.
\<close>

record args =
  no_cost :: bool
  include_snapshots :: bool
  snapshot_days :: int
  output_format :: string

record sub_state =
  immediate_items :: "item list"
  review_items :: "item list"
  snapshot_items :: "item list"
  cost_immediate :: real
  cost_review :: real

definition get_cost :: "args \<Rightarrow> (string \<rightharpoonup> real) \<Rightarrow> string option \<Rightarrow> real option" where
  "get_cost a cost_map resource_id =
     (if no_cost a \<or> \<not> truthy resource_id then None
      else cost_map (lower (or_empty resource_id)))"

definition accumulate_cost :: "real option \<Rightarrow> string \<Rightarrow> sub_state \<Rightarrow> sub_state" where
  "accumulate_cost cost_val b st =
     (case cost_val of
        None \<Rightarrow> st
      | Some v \<Rightarrow>
          if b = ''immediate'' then st\<lparr>cost_immediate := cost_immediate st + v\<rparr>
          else st\<lparr>cost_review := cost_review st + v\<rparr>)"

definition no_item :: item where
  "no_item =
     \<lparr>resourceType = [], name = None, resourceGroup = None, location = None, sizeGb = None,
      sku = None, ip = None, powerState = None, ageDays = None, resourceId = None,
      costLast30d = None, currency = CNull, remediation = []\<rparr>"

text \<open>The item dicts of the five loops.\<close>

definition disk_item :: "args \<Rightarrow> (string \<rightharpoonup> real) \<Rightarrow> cell \<Rightarrow> resource \<Rightarrow> item" where
  "disk_item a cost_map cur d =
     (let rid = raw_id d;
          cost_val = get_cost a cost_map rid;
          hint = remediation_hint ''disk'' rid
      in no_item\<lparr>resourceType := ''disk'', name := raw_name d,
           resourceGroup := raw_resourceGroup d, location := raw_location d,
           sizeGb := raw_sizeGb d, sku := raw_sku d, resourceId := rid,
           costLast30d := cost_val, currency := cur, remediation := hint\<rparr>)"

definition pip_item :: "args \<Rightarrow> (string \<rightharpoonup> real) \<Rightarrow> cell \<Rightarrow> resource \<Rightarrow> item" where
  "pip_item a cost_map cur p =
     (let rid = raw_id p;
          cost_val = get_cost a cost_map rid;
          hint = remediation_hint ''publicIp'' rid
      in no_item\<lparr>resourceType := ''publicIp'', name := raw_name p,
           resourceGroup := raw_resourceGroup p, location := raw_location p,
           sku := raw_sku p, ip := raw_ip p, resourceId := rid,
           costLast30d := cost_val, currency := cur, remediation := hint\<rparr>)"

definition nic_item :: "args \<Rightarrow> (string \<rightharpoonup> real) \<Rightarrow> cell \<Rightarrow> resource \<Rightarrow> item" where
  "nic_item a cost_map cur n =
     (let rid = raw_id n;
          cost_val = get_cost a cost_map rid;
          hint = remediation_hint ''nic'' rid
      in no_item\<lparr>resourceType := ''nic'', name := raw_name n,
           resourceGroup := raw_resourceGroup n, location := raw_location n,
           resourceId := rid, costLast30d := cost_val, currency := cur,
           remediation := hint\<rparr>)"

definition vm_item :: "args \<Rightarrow> (string \<rightharpoonup> real) \<Rightarrow> cell \<Rightarrow> resource \<Rightarrow> item" where
  "vm_item a cost_map cur v =
     (let rid = raw_id v;
          cost_val = get_cost a cost_map rid;
          hint = remediation_hint ''vm'' rid
      in no_item\<lparr>resourceType := ''vm'', name := raw_name v,
           resourceGroup := raw_resourceGroup v, location := raw_location v,
           powerState := raw_powerState v, resourceId := rid,
           costLast30d := cost_val, currency := cur, remediation := hint\<rparr>)"

text \<open>A snapshot item is written with \<^verbatim>\<open>"costLast30d": None\<close>; \<^verbatim>\<open>get_cost\<close> is not called.\<close>

definition snapshot_item :: "cell \<Rightarrow> resource \<Rightarrow> item" where
  "snapshot_item cur sshot =
     (let rid = raw_id sshot;
          hint = remediation_hint ''snapshot'' rid
      in no_item\<lparr>resourceType := ''snapshot'', name := raw_name sshot,
           resourceGroup := raw_resourceGroup sshot, location := raw_location sshot,
           sizeGb := raw_sizeGb sshot, ageDays := raw_ageDays sshot, resourceId := rid,
           costLast30d := None, currency := cur, remediation := hint\<rparr>)"

text \<open>The bodies of the five loops: the cost total and the list each item goes to.\<close>

definition disk_step ::
  "args \<Rightarrow> (string \<rightharpoonup> real) \<Rightarrow> cell \<Rightarrow> resource \<Rightarrow> sub_state \<Rightarrow> sub_state" where
  "disk_step a cost_map cur d st =
     (let cost_val = get_cost a cost_map (raw_id d);
          it = disk_item a cost_map cur d
      in if is_aks_related (raw_name d) (raw_resourceGroup d)
         then (let st' = accumulate_cost cost_val ''review'' st
               in st'\<lparr>review_items := review_items st' @ [it]\<rparr>)
         else (let st' = accumulate_cost cost_val ''immediate'' st
               in st'\<lparr>immediate_items := immediate_items st' @ [it]\<rparr>))"

definition pip_step ::
  "args \<Rightarrow> (string \<rightharpoonup> real) \<Rightarrow> cell \<Rightarrow> resource \<Rightarrow> sub_state \<Rightarrow> sub_state" where
  "pip_step a cost_map cur p st =
     (let cost_val = get_cost a cost_map (raw_id p);
          st' = accumulate_cost cost_val ''immediate'' st;
          it = pip_item a cost_map cur p
      in st'\<lparr>immediate_items := immediate_items st' @ [it]\<rparr>)"

text \<open>A NIC that is not AKS-related adds nothing to the cost totals.\<close>

definition nic_step ::
  "args \<Rightarrow> (string \<rightharpoonup> real) \<Rightarrow> cell \<Rightarrow> resource \<Rightarrow> sub_state \<Rightarrow> sub_state" where
  "nic_step a cost_map cur n st =
     (let cost_val = get_cost a cost_map (raw_id n);
          it = nic_item a cost_map cur n
      in if is_aks_related (raw_name n) (raw_resourceGroup n)
         then (let st' = accumulate_cost cost_val ''review'' st
               in st'\<lparr>review_items := review_items st' @ [it]\<rparr>)
         else st\<lparr>immediate_items := immediate_items st @ [it]\<rparr>)"

definition vm_step ::
  "args \<Rightarrow> (string \<rightharpoonup> real) \<Rightarrow> cell \<Rightarrow> resource \<Rightarrow> sub_state \<Rightarrow> sub_state" where
  "vm_step a cost_map cur v st =
     (let cost_val = get_cost a cost_map (raw_id v);
          st' = accumulate_cost cost_val ''immediate'' st;
          it = vm_item a cost_map cur v
      in st'\<lparr>immediate_items := immediate_items st' @ [it]\<rparr>)"

definition snapshot_step :: "cell \<Rightarrow> resource \<Rightarrow> sub_state \<Rightarrow> sub_state" where
  "snapshot_step cur sshot st =
     st\<lparr>snapshot_items := snapshot_items st @ [snapshot_item cur sshot]\<rparr>"

text \<open>
  The five loops, in the order of the source, from the lists the collectors returned.
\<close>

definition collect_items ::
  "args \<Rightarrow> (string \<rightharpoonup> real) \<Rightarrow> cell \<Rightarrow> resource list \<Rightarrow> resource list \<Rightarrow> resource list \<Rightarrow>
   resource list \<Rightarrow> resource list \<Rightarrow> sub_state" where
  "collect_items a cost_map cur orphan_disks public_ips nics vms_waste snapshots_old =
     (let st0 = \<lparr>immediate_items = [], review_items = [], snapshot_items = [],
                 cost_immediate = 0, cost_review = 0\<rparr>;
          st1 = fold (disk_step a cost_map cur) orphan_disks st0;
          st2 = fold (pip_step a cost_map cur) public_ips st1;
          st3 = fold (nic_step a cost_map cur) nics st2;
          st4 = fold (vm_step a cost_map cur) vms_waste st3
      in if include_snapshots a then fold (snapshot_step cur) snapshots_old st4 else st4)"

text \<open>
  \<open>built_findings\<close> is the call of \<^verbatim>\<open>build_findings\<close> on the items of the
  subscription; \<open>subscription_findings\<close> is what one pass of the loop adds to
  \<^verbatim>\<open>all_findings\<close>: those findings when the output format is \<^verbatim>\<open>json\<close> or
  \<^verbatim>\<open>csv\<close>, nothing otherwise.
\<close>

definition is_structured :: "args \<Rightarrow> bool" where
  "is_structured a = (output_format a = ''json'' \<or> output_format a = ''csv'')"

definition built_findings ::
  "args \<Rightarrow> string \<Rightarrow> string option \<Rightarrow> (string \<rightharpoonup> real) \<Rightarrow> cell \<Rightarrow> resource list \<Rightarrow>
   resource list \<Rightarrow> resource list \<Rightarrow> resource list \<Rightarrow> resource list \<Rightarrow> finding list" where
  "built_findings a sub_name sub_id cost_map cur orphan_disks public_ips nics vms_waste
     snapshots_old =
     (let st = collect_items a cost_map cur orphan_disks public_ips nics vms_waste snapshots_old
      in build_findings sub_name sub_id (immediate_items st) (review_items st)
           (snapshot_items st))"

definition subscription_findings ::
  "args \<Rightarrow> string \<Rightarrow> string option \<Rightarrow> (string \<rightharpoonup> real) \<Rightarrow> cell \<Rightarrow> resource list \<Rightarrow>
   resource list \<Rightarrow> resource list \<Rightarrow> resource list \<Rightarrow> resource list \<Rightarrow> finding list" where
  "subscription_findings a sub_name sub_id cost_map cur orphan_disks public_ips nics vms_waste
     snapshots_old =
     (if is_structured a
      then built_findings a sub_name sub_id cost_map cur orphan_disks public_ips nics vms_waste
             snapshots_old
      else [])"

text \<open>
  The snapshots that the text output prints for a subscription, and the number in its
  \<^verbatim>\<open>... (n more)\<close> line when there is one. \<^verbatim>\<open>sorted(..., reverse=True)\<close> is stable, as
  a stable ascending sort on the negated key is.
\<close>

definition age_key :: "resource \<Rightarrow> int" where
  "age_key x = (case raw_ageDays x of None \<Rightarrow> 0 | Some d \<Rightarrow> d)"

definition text_snapshots :: "resource list \<Rightarrow> resource list \<times> nat option" where
  "text_snapshots snapshots_old =
     (take 20 (sort_key (\<lambda>x. - age_key x) snapshots_old),
      if length snapshots_old > 20 then Some (length snapshots_old - 20) else None)"

text \<open>
  The final output of the structured formats: the \<^verbatim>\<open>findings\<close> array of the JSON
  document is \<^verbatim>\<open>all_findings\<close>, and the CSV writer writes one row for each element of
  \<^verbatim>\<open>all_findings\<close>, with the sixteen columns of \<^verbatim>\<open>fieldnames\<close>, which are the keys of
  a finding.
\<close>

definition json_findings :: "finding list \<Rightarrow> finding list" where
  "json_findings all_findings = all_findings"

definition csv_rows :: "finding list \<Rightarrow> finding list" where
  "csv_rows all_findings = map (\<lambda>f. f) all_findings"

section \<open>The run over the subscriptions\<close>

text \<open>
  What \<^verbatim>\<open>main\<close> has in one pass of its loop \<^verbatim>\<open>for s in subs\<close>, for a subscription
  that passes the \<^verbatim>\<open>--only-subs\<close> and \<^verbatim>\<open>--skip-subs\<close> filters: its name and id, the
  cost index and currency, and the lists the collectors returned (\<^verbatim>\<open>snapshots_old\<close> is
  empty when snapshots are not requested).
\<close>

record scanned =
  scan_name :: string
  scan_id :: "string option"
  scan_cost_map :: "string \<rightharpoonup> real"
  scan_currency :: cell
  scan_disks :: "resource list"
  scan_public_ips :: "resource list"
  scan_nics :: "resource list"
  scan_vms :: "resource list"
  scan_snapshots :: "resource list"

text \<open>The loop, as far as \<^verbatim>\<open>all_findings\<close> goes: each pass extends the list.\<close>

fun findings_loop :: "args \<Rightarrow> scanned list \<Rightarrow> finding list \<Rightarrow> finding list" where
  "findings_loop a [] all_findings = all_findings"
| "findings_loop a (s # ss) all_findings =
     findings_loop a ss
       (all_findings @
        subscription_findings a (scan_name s) (scan_id s) (scan_cost_map s) (scan_currency s)
          (scan_disks s) (scan_public_ips s) (scan_nics s) (scan_vms s) (scan_snapshots s))"

definition all_findings_of :: "args \<Rightarrow> scanned list \<Rightarrow> finding list" where
  "all_findings_of a subs = findings_loop a subs []"

text \<open>
  The snapshot part of the text that one pass prints: nothing in a structured format or
  when snapshots are not requested; else the sorted and truncated snapshots with the
  remainder, or a line that names no snapshot when the list is empty.
\<close>

definition snapshot_section ::
  "args \<Rightarrow> resource list \<Rightarrow> (resource list \<times> nat option) option" where
  "snapshot_section a snapshots_old =
     (if is_structured a then None
      else if include_snapshots a
      then (if snapshots_old \<noteq> [] then Some (text_snapshots snapshots_old) else Some ([], None))
      else None)"

text \<open>The snapshots that the text output of the whole run prints, pass after pass.\<close>

fun printed_loop :: "args \<Rightarrow> scanned list \<Rightarrow> resource list \<Rightarrow> resource list" where
  "printed_loop a [] printed = printed"
| "printed_loop a (s # ss) printed =
     printed_loop a ss
       (printed @
        (case snapshot_section a (scan_snapshots s) of
           None \<Rightarrow> []
         | Some (shown, remainder) \<Rightarrow> shown))"

definition printed_snapshots :: "args \<Rightarrow> scanned list \<Rightarrow> resource list" where
  "printed_snapshots a subs = printed_loop a subs []"

section \<open>Notions the properties are stated with\<close>

text \<open>The key of the deduplication: the identifier, lower-cased, empty when missing.\<close>

definition id_key :: "resource \<Rightarrow> string" where
  "id_key d = lower (or_empty (raw_id d))"

text \<open>The classifier applied to a listing record.\<close>

definition aks_resource :: "resource \<Rightarrow> bool" where
  "aks_resource r = is_aks_related (raw_name r) (raw_resourceGroup r)"

text \<open>
  A run of the pagination in which the pages \<open>rs\<close> are fetched one after the other,
  starting from \<open>link\<close>, each with a continuation link, and the request for the
  continuation of the last one fails.
\<close>

fun chain_then_failure ::
  "(string \<Rightarrow> response option) \<Rightarrow> string option \<Rightarrow> response list \<Rightarrow> bool" where
  "chain_then_failure post link [] = (truthy link \<and> post (or_empty link) = None)"
| "chain_then_failure post link (r # rs) =
     (truthy link \<and> post (or_empty link) = Some r \<and>
      chain_then_failure post (nextLink (props_of r)) rs)"

text \<open>The URIs requested in such a run, the failing one last.\<close>

fun chain_links :: "string option \<Rightarrow> response list \<Rightarrow> string list" where
  "chain_links link [] = [or_empty link]"
| "chain_links link (r # rs) = or_empty link # chain_links (nextLink (props_of r)) rs"

text \<open>The first column list that is not empty, and the rows of all pages in order.\<close>

fun first_columns :: "string option list \<Rightarrow> response list \<Rightarrow> string option list" where
  "first_columns cs [] = cs"
| "first_columns cs (r # rs) = (if cs = [] then first_columns (columns (props_of r)) rs else cs)"

definition rows_of :: "response list \<Rightarrow> cell list list" where
  "rows_of rs = concat (map (\<lambda>r. rows (props_of r)) rs)"


text \<open>What identifies a finding and its cost: resource type, identifier and cost.\<close>

definition finding_key :: "finding \<Rightarrow> string \<times> string option \<times> real option" where
  "finding_key f = (resourceType f, resourceId f, costLast30d f)"

section \<open>Example inputs\<close>

definition example_resource :: resource where
  "example_resource =
     \<lparr>raw_id = None, raw_name = None, raw_resourceGroup = None, raw_location = None,
      raw_sizeGb = None, raw_sku = None, raw_ip = None, raw_powerState = None,
      raw_timeCreated = None, raw_ageDays = None\<rparr>"

definition example_vm :: "string \<Rightarrow> string \<Rightarrow> resource" where
  "example_vm rid ps = example_resource\<lparr>raw_id := Some rid, raw_powerState := Some ps\<rparr>"

definition example_with_id :: "string \<Rightarrow> resource" where
  "example_with_id rid = example_resource\<lparr>raw_id := Some rid\<rparr>"

definition example_args :: args where
  "example_args =
     \<lparr>no_cost = False, include_snapshots = True, snapshot_days = 180,
      output_format = ''json''\<rparr>"

definition example_pvc_disk :: resource where
  "example_pvc_disk =
     example_resource\<lparr>raw_id := Some ''/subs/s1/disks/pvc-1234'',
       raw_name := Some ''pvc-1234'', raw_resourceGroup := Some ''rg-data''\<rparr>"







definition example_conv :: conv where
  "example_conv = \<lparr>str_of_num = (\<lambda>x. ''0''), float_of_str = (\<lambda>s. None)\<rparr>"

definition example_columns :: "string option list" where
  "example_columns = [Some ''PreTaxCost'', Some ''ResourceId'', Some ''Currency'']"

definition example_page1 :: response where
  "example_page1 =
     Resp \<lparr>columns = example_columns,
           rows = [[CNum (25 / 2), CStr ''/SUBSCRIPTIONS/abc/Disk1'', CStr ''GBP'']],
           nextLink = Some ''page2''\<rparr>"

definition example_page2 :: response where
  "example_page2 =
     Resp \<lparr>columns = example_columns,
           rows = [[CNum 3, CStr ''/subscriptions/abc/disk2'', CStr ''GBP'']],
           nextLink = Some ''page3''\<rparr>"

definition example_post :: "string \<Rightarrow> response option" where
  "example_post uri =
     (if uri = cost_url ''sub1'' then Some example_page1
      else if uri = ''page2'' then Some example_page2
      else None)"

definition example_snapshots :: "resource list" where
  "example_snapshots =
     map (\<lambda>n. example_resource\<lparr>raw_id := Some ''/snap'', raw_ageDays := Some n\<rparr>) [1..22]"

definition example_text_args :: args where
  "example_text_args = example_args\<lparr>output_format := ''text''\<rparr>"

definition example_scan :: scanned where
  "example_scan =
     \<lparr>scan_name = ''sub'', scan_id = None, scan_cost_map = Map.empty, scan_currency = CNull,
      scan_disks = [], scan_public_ips = [], scan_nics = [], scan_vms = [],
      scan_snapshots = example_snapshots\<rparr>"

section \<open>Facts about the string functions\<close>

lemma startswith_prefix: "startswith s p = prefix p s"
  by (induction s p rule: startswith.induct) auto

lemma contains_sublist: "contains sub s = sublist sub s"
  by (induction s) (auto simp: startswith_prefix sublist_Cons_right)



lemma lower_Nil_iff: "lower s = [] \<longleftrightarrow> s = []"
  by (simp add: lower_def)

section \<open>Facts about the floats\<close>

lemma pow2_neg: "(2::real) powi (- int k) = 1 / 2 ^ k"
  by (simp add: power_int_minus_divide)

lemma binade_bounds:
  assumes "x \<noteq> 0"
  shows "2 powi (binade x) \<le> \<bar>x\<bar> \<and> \<bar>x\<bar> < 2 powi (binade x + 1)"
proof (cases "1 \<le> \<bar>x\<bar>")
  case True
  define m where "m = \<lfloor>\<bar>x\<bar>\<rfloor>"
  have m: "0 < m" using True by (simp add: m_def)
  from bitlen_bounds [OF m] have b: "2 ^ nat (bitlen m - 1) \<le> m" "m < 2 ^ nat (bitlen m)"
    by simp_all
  have p: "0 < bitlen m" using m by (simp add: bitlen_alt_def)
  have e: "binade x = bitlen m - 1" using True by (simp add: binade_def m_def)
  have "(2::real) powi (bitlen m - 1) = 2 ^ nat (bitlen m - 1)"
    using p by (simp add: power_int_nonneg_exp)
  also have "\<dots> \<le> real_of_int m" using b(1) by (metis of_int_le_iff of_int_numeral of_int_power)
  also have "\<dots> \<le> \<bar>x\<bar>" by (simp add: m_def)
  finally have lo: "2 powi (binade x) \<le> \<bar>x\<bar>" by (simp add: e)
  have "m + 1 \<le> 2 ^ nat (bitlen m)" using b(2) by simp
  then have "real_of_int (m + 1) \<le> 2 ^ nat (bitlen m)"
    by (metis of_int_le_iff of_int_numeral of_int_power)
  moreover have "\<bar>x\<bar> < real_of_int (m + 1)" by (simp add: m_def)
  moreover have "(2::real) powi (bitlen m) = 2 ^ nat (bitlen m)"
    using p by (simp add: power_int_nonneg_exp)
  ultimately have "\<bar>x\<bar> < 2 powi (binade x + 1)" by (simp add: e)
  with lo show ?thesis by simp
next
  case False
  define y where "y = 1 / \<bar>x\<bar>"
  have x: "0 < \<bar>x\<bar>" "\<bar>x\<bar> < 1" using assms False by simp_all
  have y: "1 < y" using x by (simp add: y_def)
  define c where "c = \<lceil>y\<rceil>"
  have c: "0 < c - 1" using y by (simp add: c_def)
  define k where "k = nat (bitlen (c - 1))"
  have kp: "0 < bitlen (c - 1)" using c by (simp add: bitlen_alt_def)
  then have ki: "bitlen (c - 1) = int k" and k0: "0 < k" by (simp_all add: k_def)
  from bitlen_bounds [OF c] have b: "2 ^ (k - 1) \<le> c - 1" "c - 1 < 2 ^ k"
    using kp by (simp_all add: k_def nat_diff_distrib)
  have e: "binade x = - int k" using False ki [unfolded c_def y_def] by (simp add: binade_def)
  have "y \<le> real_of_int c" by (simp add: c_def)
  also have "c \<le> 2 ^ k" using b(2) by simp
  then have "real_of_int c \<le> 2 ^ k" by (metis of_int_le_iff of_int_numeral of_int_power)
  finally have yk: "y \<le> 2 ^ k" .
  have "real_of_int (c - 1) < y" by (simp add: c_def) linarith
  moreover have "(2::real) ^ (k - 1) \<le> real_of_int (c - 1)"
    using b(1) by (metis of_int_le_iff of_int_numeral of_int_power)
  ultimately have yl: "2 ^ (k - 1) < y" by linarith
  have lo: "2 powi (- int k) \<le> \<bar>x\<bar>"
  proof -
    have "1 / 2 ^ k \<le> 1 / y" using yk y by (simp add: frac_le)
    then show ?thesis using x by (simp add: pow2_neg y_def)
  qed
  have hi: "\<bar>x\<bar> < 2 powi (- int k + 1)"
  proof -
    have "1 / y < 1 / 2 ^ (k - 1)" using yl by (simp add: frac_less2)
    moreover have "- int k + 1 = - int (k - 1)" using k0 by simp
    ultimately show ?thesis using x by (simp add: pow2_neg y_def del: of_nat_diff)
  qed
  from lo hi show ?thesis by (simp add: e)
qed

lemma binade_eqI:
  assumes "2 powi e \<le> \<bar>x\<bar>" "\<bar>x\<bar> < 2 powi (e + 1)"
  shows "binade x = e"
proof -
  have nz: "x \<noteq> 0" proof
    assume "x = 0"
    with assms(1) have "(2::real) powi e \<le> 0" by simp
    moreover have "0 < (2::real) powi e" by simp
    ultimately show False by linarith
  qed
  note b = binade_bounds [OF nz]
  have "\<not> binade x < e"
  proof
    assume "binade x < e"
    then have "(2::real) powi (binade x + 1) \<le> 2 powi e" by (intro power_int_increasing) simp_all
    with b assms show False by linarith
  qed
  moreover have "\<not> e < binade x"
  proof
    assume "e < binade x"
    then have "(2::real) powi (e + 1) \<le> 2 powi (binade x)" by (intro power_int_increasing) simp_all
    with b assms show False by linarith
  qed
  ultimately show ?thesis by simp
qed


lemma round_half_even_of_int: "round_half_even (of_int m) = m"
  by (simp add: round_half_even_def)

lemma round_half_even_nearest:
  assumes "\<bar>q - of_int n\<bar> < 1 / 2"
  shows "round_half_even q = n"
proof -
  have "\<lfloor>q\<rfloor> = n \<or> \<lfloor>q\<rfloor> = n - 1" using assms by linarith
  then show ?thesis
  proof
    assume f: "\<lfloor>q\<rfloor> = n"
    then have "q - of_int n < 1 / 2" using assms by linarith
    with f show ?thesis by (simp add: round_half_even_def)
  next
    assume f: "\<lfloor>q\<rfloor> = n - 1"
    have "1 / 2 < q - of_int (n - 1)" using assms by (simp only: of_int_diff of_int_1)
    with f show ?thesis by (simp add: round_half_even_def Let_def)
  qed
qed

lemma round_double_eval:
  assumes "2 powi e \<le> \<bar>x\<bar>" "\<bar>x\<bar> < 2 powi (e + 1)" "- 1022 \<le> e"
    "\<bar>x / 2 powi (e - 52) - of_int n\<bar> < 1 / 2"
  shows "round_double x = of_int n * 2 powi (e - 52)"
proof -
  have b: "binade x = e" using assms(1,2) by (rule binade_eqI)
  have nz: "x \<noteq> 0"
  proof
    assume "x = 0"
    with assms(1) have "(2::real) powi e \<le> 0" by simp
    moreover have "0 < (2::real) powi e" by simp
    ultimately show False by linarith
  qed
  from nz b assms(3) round_half_even_nearest [OF assms(4)] show ?thesis
    by (simp add: round_double_def Let_def max_def)
qed

lemma round_double_of_int:
  assumes "\<bar>n\<bar> < 2 ^ 53"
  shows "round_double (of_int n) = of_int n"
proof (cases "n = 0")
  case True
  then show ?thesis by (simp add: round_double_def)
next
  case False
  define e where "e = binade (of_int n)"
  have nz: "real_of_int n \<noteq> 0" using False by simp
  note b = binade_bounds [OF nz, folded e_def]
  have "1 \<le> \<bar>n\<bar>" using False by arith
  then have n1: "1 \<le> \<bar>real_of_int n\<bar>"
    using of_int_le_iff [of 1 "\<bar>n\<bar>", where ?'a = real] by simp
  have e0: "0 \<le> e"
  proof (rule ccontr)
    assume "\<not> 0 \<le> e"
    then have "(2::real) powi (e + 1) \<le> 2 powi 0" by (intro power_int_increasing) simp_all
    with b n1 show False by simp
  qed
  have "\<bar>real_of_int n\<bar> < 2 ^ 53"
    using assms of_int_less_iff [of "\<bar>n\<bar>" "2 ^ 53", where ?'a = real] by simp
  have e52: "e \<le> 52"
  proof (rule ccontr)
    assume "\<not> e \<le> 52"
    then have "(2::real) powi 53 \<le> 2 powi e" by (intro power_int_increasing) simp_all
    with b \<open>\<bar>real_of_int n\<bar> < 2 ^ 53\<close> show False by simp
  qed
  define k where "k = nat (52 - e)"
  have u: "(2::real) powi (e - 52) = 1 / 2 ^ k"
  proof -
    have "e - 52 = - int k" using e52 by (simp add: k_def)
    then show ?thesis by (simp add: power_int_minus_divide)
  qed
  have "real_of_int n / (2 powi (e - 52)) = of_int (n * 2 ^ k)" by (simp add: u)
  then have r: "round_half_even (real_of_int n / (2 powi (e - 52))) = n * 2 ^ k"
    by (simp only: round_half_even_of_int)
  have m: "max e (- 1022) = e" using e0 by simp
  show ?thesis
    using nz by (simp add: round_double_def Let_def e_def [symmetric] m r) (simp add: u)
qed


section \<open>Stopped virtual machines\<close>

lemma vm_likely_sublist:
  "vm_likely v \<longleftrightarrow>
     sublist ''stopped'' (lower (or_empty (raw_powerState v))) \<and>
     \<not> sublist ''deallocated'' (lower (or_empty (raw_powerState v)))"
  by (simp add: vm_likely_def contains_sublist Let_def)

text \<open>
  C4. The VMs that \<^verbatim>\<open>get_stopped_not_deallocated_vms\<close> returns are those of the listing,
  in its order, whose lower-cased power state has \<open>stopped\<close> as a substring and does not
  have \<open>deallocated\<close> as one. A VM with power state \<open>VM stopped\<close> is flagged; one with
  \<open>VM deallocated\<close> or \<open>VM stopping\<close> is not.
\<close>

theorem vm_flagged_iff:
  "get_stopped_not_deallocated_vms vms =
     filter (\<lambda>v. sublist ''stopped'' (lower (or_empty (raw_powerState v))) \<and>
                 \<not> sublist ''deallocated'' (lower (or_empty (raw_powerState v)))) vms
   \<and> (\<forall>v. raw_powerState v = Some ''VM stopped'' \<longrightarrow> vm_likely v)
   \<and> (\<forall>v. raw_powerState v = Some ''VM deallocated'' \<longrightarrow> \<not> vm_likely v)
   \<and> (\<forall>v. raw_powerState v = Some ''VM stopping'' \<longrightarrow> \<not> vm_likely v)"
proof -
  have l1: "lower ''VM stopped'' = ''vm stopped''" by code_simp
  have l2: "lower ''VM deallocated'' = ''vm deallocated''" by code_simp
  have l3: "lower ''VM stopping'' = ''vm stopping''" by code_simp
  have "vm_likely = (\<lambda>v. sublist ''stopped'' (lower (or_empty (raw_powerState v))) \<and>
                 \<not> sublist ''deallocated'' (lower (or_empty (raw_powerState v))))"
    by (rule ext) (rule vm_likely_sublist)
  then have a: "get_stopped_not_deallocated_vms vms =
     filter (\<lambda>v. sublist ''stopped'' (lower (or_empty (raw_powerState v))) \<and>
                 \<not> sublist ''deallocated'' (lower (or_empty (raw_powerState v)))) vms"
    by (simp add: get_stopped_not_deallocated_vms_def)
  have b: "\<forall>v. raw_powerState v = Some ''VM stopped'' \<longrightarrow> vm_likely v"
    by (simp add: vm_likely_def l1)
  have c: "\<forall>v. raw_powerState v = Some ''VM deallocated'' \<longrightarrow> \<not> vm_likely v"
    by (simp add: vm_likely_def l2)
  have d: "\<forall>v. raw_powerState v = Some ''VM stopping'' \<longrightarrow> \<not> vm_likely v"
    by (simp add: vm_likely_def l3)
  from a b c d show ?thesis by blast
qed

theorem vm_flagged_iff_witness:
  "raw_powerState (example_vm ''/a'' ''VM stopped'') = Some ''VM stopped'' \<and>
   raw_powerState (example_vm ''/b'' ''VM deallocated'') = Some ''VM deallocated'' \<and>
   raw_powerState (example_vm ''/c'' ''VM stopping'') = Some ''VM stopping'' \<and>
   vm_likely (example_vm ''/a'' ''VM stopped'') \<and>
   \<not> vm_likely (example_vm ''/b'' ''VM deallocated'') \<and>
   \<not> vm_likely (example_vm ''/c'' ''VM stopping'') \<and>
   get_stopped_not_deallocated_vms
     [example_vm ''/a'' ''VM stopped'', example_vm ''/b'' ''VM deallocated'',
      example_vm ''/c'' ''VM stopping'']
   = [example_vm ''/a'' ''VM stopped'']"
proof -
  have p: "raw_powerState (example_vm rid ps) = Some ps" for rid ps
    by (simp add: example_vm_def)
  note t = vm_flagged_iff [of "[example_vm ''/a'' ''VM stopped'',
      example_vm ''/b'' ''VM deallocated'', example_vm ''/c'' ''VM stopping'']"]
  from t p have f: "vm_likely (example_vm ''/a'' ''VM stopped'')"
    "\<not> vm_likely (example_vm ''/b'' ''VM deallocated'')"
    "\<not> vm_likely (example_vm ''/c'' ''VM stopping'')"
    by blast+
  then show ?thesis
    by (simp add: p get_stopped_not_deallocated_vms_def)
qed

section \<open>The classifier\<close>

lemma rg_flasks: "\<not> re_search AKS_RG_PATTERN ''flasks''"
  by code_simp

lemma rg_tasks_prod: "\<not> re_search AKS_RG_PATTERN ''tasks-prod''"
  by code_simp

lemma kube_apiserver_kube: "sublist ''kube-apiserver.nic'' s \<Longrightarrow> sublist ''kube'' s"
proof -
  assume "sublist ''kube-apiserver.nic'' s"
  moreover have "sublist ''kube'' ''kube-apiserver.nic''" by code_simp
  ultimately show ?thesis using sublist_order.order_trans by blast
qed

lemma name_rules_sublist:
  "name_rules n \<longleftrightarrow> prefix ''pvc-'' n \<or> sublist ''kube'' n \<or> sublist ''-pe-'' n"
  using kube_apiserver_kube [of n]
  by (auto simp: name_rules_def startswith_prefix contains_sublist)

text \<open>
  C5, as the code has it. For a resource group that is \<open>flasks\<close> or \<open>tasks-prod\<close> the
  resource-group pattern (the \<open>MC_\<close> prefix and the delimited \<open>aks\<close> token) does not match,
  and \<^verbatim>\<open>is_aks_related\<close> is decided by the name alone: it is true exactly when the
  lower-cased name starts with \<open>pvc-\<close> or contains \<open>kube\<close> or \<open>-pe-\<close>. So the classifier
  answers "not AKS-related" (bucket \<open>immediate\<close>) for every name that none of the name
  rules matches.
\<close>

theorem classifier_flasks_tasks:
  assumes "rg = ''flasks'' \<or> rg = ''tasks-prod''"
  shows "\<not> re_search AKS_RG_PATTERN rg \<and>
         is_aks_related nm (Some rg) =
           (prefix ''pvc-'' (lower (or_empty nm)) \<or> sublist ''kube'' (lower (or_empty nm)) \<or>
            sublist ''-pe-'' (lower (or_empty nm)))"
proof -
  from assms rg_flasks rg_tasks_prod have "\<not> re_search AKS_RG_PATTERN rg" by blast
  then show ?thesis
    by (simp add: is_aks_related_def name_rules_sublist Let_def)
qed

theorem classifier_flasks_tasks_witness:
  "(''tasks-prod'' = ''flasks'' \<or> ''tasks-prod'' = ''tasks-prod'') \<and>
   \<not> re_search AKS_RG_PATTERN ''tasks-prod'' \<and>
   \<not> is_aks_related (Some ''disk-01'') (Some ''tasks-prod'')"
proof -
  have l: "lower ''disk-01'' = ''disk-01''" by code_simp
  have n: "\<not> (prefix ''pvc-'' ''disk-01'' \<or> sublist ''kube'' ''disk-01'' \<or>
              sublist ''-pe-'' ''disk-01'')"
    by code_simp
  from classifier_flasks_tasks [of "''tasks-prod''" "Some ''disk-01''"] l n
  show ?thesis by simp
qed

text \<open>
  The claim as the specification words it (every resource in such a group is classified
  \<open>immediate\<close>) fails for a disk named \<open>pvc-1234\<close> in the resource group \<open>flasks\<close>.
\<close>

theorem classifier_flasks_tasks_counterexample:
  "is_aks_related (Some ''pvc-1234'') (Some ''flasks'')"
  by code_simp

section \<open>Orphaned disks\<close>

lemma merge_loop_invariant:
  assumes "seen = set (map id_key result)" "distinct (map id_key result)"
    "\<forall>d\<in>set result. id_key d \<noteq> []"
  shows "distinct (map id_key (merge_loop ds seen result)) \<and>
         set (map id_key (merge_loop ds seen result)) =
           set (map id_key result) \<union> (set (map id_key ds) - {[]}) \<and>
         set (merge_loop ds seen result) \<subseteq> set result \<union> set ds \<and>
         (\<forall>d\<in>set (merge_loop ds seen result). id_key d \<noteq> [])"
  using assms
proof (induction ds arbitrary: seen result)
  case Nil
  then show ?case by simp
next
  case (Cons d ds)
  show ?case
  proof (cases "id_key d \<noteq> [] \<and> id_key d \<notin> seen")
    case True
    have s: "merge_loop (d # ds) seen result = merge_loop ds (insert (id_key d) seen) (result @ [d])"
      using True by (simp add: id_key_def Let_def)
    have p: "insert (id_key d) seen = set (map id_key (result @ [d]))"
      "distinct (map id_key (result @ [d]))" "\<forall>d\<in>set (result @ [d]). id_key d \<noteq> []"
      using Cons.prems True by auto
    have e: "set (map id_key result) \<union> (set (map id_key (d # ds)) - {[]}) =
             set (map id_key (result @ [d])) \<union> (set (map id_key ds) - {[]})"
      using True by auto
    have u: "set (result @ [d]) \<union> set ds \<subseteq> set result \<union> set (d # ds)" by auto
    note ih = Cons.IH [OF p]
    show ?thesis unfolding s e using ih u by blast
  next
    case False
    have s: "merge_loop (d # ds) seen result = merge_loop ds seen result"
      using False by (auto simp add: id_key_def Let_def)
    have e: "set (map id_key result) \<union> (set (map id_key (d # ds)) - {[]}) =
             set (map id_key result) \<union> (set (map id_key ds) - {[]})"
      using False Cons.prems(1) by auto
    have u: "set result \<union> set ds \<subseteq> set result \<union> set (d # ds)" by auto
    note ih = Cons.IH [OF Cons.prems]
    show ?thesis unfolding s e using ih u by blast
  qed
qed

lemma orphaned_disks_keys:
  "distinct (map id_key (get_orphaned_disks bm bs)) \<and>
   set (map id_key (get_orphaned_disks bm bs)) = set (map id_key (bm @ bs)) - {[]} \<and>
   set (get_orphaned_disks bm bs) \<subseteq> set bm \<union> set bs \<and>
   (\<forall>d\<in>set (get_orphaned_disks bm bs). id_key d \<noteq> [])"
  using merge_loop_invariant [of "{}" "[]" "bm @ bs"]
  by (simp add: get_orphaned_disks_def)

lemma distinct_map_filter_one:
  "distinct (map f xs) \<Longrightarrow> k \<in> set (map f xs) \<Longrightarrow> length (filter (\<lambda>x. f x = k) xs) = 1"
proof (induction xs)
  case Nil
  then show ?case by simp
next
  case (Cons x xs)
  show ?case
  proof (cases "f x = k")
    case True
    with Cons.prems have "\<forall>y\<in>set xs. f y \<noteq> k" by (auto simp: image_iff)
    then have "filter (\<lambda>x. f x = k) xs = []" by (simp add: filter_empty_conv)
    with True show ?thesis by simp
  next
    case False
    with Cons show ?thesis by auto
  qed
qed

text \<open>
  C3. When the listing by \<^verbatim>\<open>managedBy\<close> and the listing by \<^verbatim>\<open>diskState\<close> each hold a
  record with the same identifier up to case (an identifier that is present and not
  empty), the merged list holds exactly one record whose identifier equals it up to case,
  and no two records of the merged list have identifiers that are equal up to case.
\<close>

theorem disks_deduplicated:
  assumes "d1 \<in> set by_managed" "d2 \<in> set by_state"
    "raw_id d1 = Some x" "raw_id d2 = Some y" "lower x = lower y" "x \<noteq> []"
  shows "length (filter (\<lambda>d. lower (or_empty (raw_id d)) = lower x)
                   (get_orphaned_disks by_managed by_state)) = 1 \<and>
         distinct (map (\<lambda>d. lower (or_empty (raw_id d))) (get_orphaned_disks by_managed by_state))"
proof -
  have k: "id_key = (\<lambda>d. lower (or_empty (raw_id d)))" by (rule ext) (simp add: id_key_def)
  have "id_key d1 = lower x" using assms(3) by (simp add: id_key_def)
  moreover have "lower x \<noteq> []" using assms(6) by (simp add: lower_Nil_iff)
  ultimately have "lower x \<in> set (map id_key (by_managed @ by_state)) - {[]}"
    using assms(1) by force
  then have "lower x \<in> set (map id_key (get_orphaned_disks by_managed by_state))"
    using orphaned_disks_keys [of by_managed by_state] by simp
  moreover have "distinct (map id_key (get_orphaned_disks by_managed by_state))"
    using orphaned_disks_keys [of by_managed by_state] by simp
  ultimately show ?thesis
    using distinct_map_filter_one [of id_key "get_orphaned_disks by_managed by_state" "lower x"]
    unfolding k by simp
qed

theorem disks_deduplicated_witness:
  "get_orphaned_disks [example_with_id ''/Subs/Disk1''] [example_with_id ''/subs/disk1''] = [example_with_id ''/Subs/Disk1'']
  \<and> length (filter (\<lambda>d. lower (or_empty (raw_id d)) = lower ''/Subs/Disk1'')
                   (get_orphaned_disks [example_with_id ''/Subs/Disk1''] [example_with_id ''/subs/disk1''])) = 1"
proof -
  have l: "lower ''/Subs/Disk1'' = ''/subs/disk1''" "lower ''/subs/disk1'' = ''/subs/disk1''"
    by code_simp+
  have r: "raw_id (example_with_id r) = Some r" for r by (simp add: example_with_id_def)
  have m: "get_orphaned_disks [example_with_id ''/Subs/Disk1''] [example_with_id ''/subs/disk1''] = [example_with_id ''/Subs/Disk1'']"
    by (simp add: get_orphaned_disks_def r l Let_def)
  from disks_deduplicated [of "example_with_id ''/Subs/Disk1''" "[example_with_id ''/Subs/Disk1'']"
      "example_with_id ''/subs/disk1''" "[example_with_id ''/subs/disk1'']" "''/Subs/Disk1''" "''/subs/disk1''"]
  have "length (filter (\<lambda>d. lower (or_empty (raw_id d)) = lower ''/Subs/Disk1'')
                   (get_orphaned_disks [example_with_id ''/Subs/Disk1''] [example_with_id ''/subs/disk1''])) = 1"
    by (simp add: r l)
  with m show ?thesis by simp
qed

section \<open>The items and findings of a subscription\<close>

lemma entry_fields:
  "resourceType (entry sn sid b it) = resourceType it"
  "resourceId (entry sn sid b it) = resourceId it"
  "name (entry sn sid b it) = name it"
  "resourceGroup (entry sn sid b it) = resourceGroup it"
  "costLast30d (entry sn sid b it) = costLast30d it"
  "bucket (entry sn sid b it) = b"
  "subscription (entry sn sid b it) = sn"
  "subscriptionId (entry sn sid b it) = sid"
  by (simp_all add: entry_def item.defs)

lemma fold_disk_step:
  "immediate_items (fold (disk_step a cm cur) ds st) =
     immediate_items st @ map (disk_item a cm cur) (filter (\<lambda>d. \<not> aks_resource d) ds) \<and>
   review_items (fold (disk_step a cm cur) ds st) =
     review_items st @ map (disk_item a cm cur) (filter aks_resource ds) \<and>
   snapshot_items (fold (disk_step a cm cur) ds st) = snapshot_items st"
  by (induction ds arbitrary: st)
     (simp_all add: disk_step_def accumulate_cost_def aks_resource_def Let_def split: option.split)

lemma fold_pip_step:
  "immediate_items (fold (pip_step a cm cur) ps st) =
     immediate_items st @ map (pip_item a cm cur) ps \<and>
   review_items (fold (pip_step a cm cur) ps st) = review_items st \<and>
   snapshot_items (fold (pip_step a cm cur) ps st) = snapshot_items st"
  by (induction ps arbitrary: st)
     (simp_all add: pip_step_def accumulate_cost_def Let_def split: option.split)

lemma fold_nic_step:
  "immediate_items (fold (nic_step a cm cur) ns st) =
     immediate_items st @ map (nic_item a cm cur) (filter (\<lambda>d. \<not> aks_resource d) ns) \<and>
   review_items (fold (nic_step a cm cur) ns st) =
     review_items st @ map (nic_item a cm cur) (filter aks_resource ns) \<and>
   snapshot_items (fold (nic_step a cm cur) ns st) = snapshot_items st"
  by (induction ns arbitrary: st)
     (simp_all add: nic_step_def accumulate_cost_def aks_resource_def Let_def split: option.split)

lemma fold_vm_step:
  "immediate_items (fold (vm_step a cm cur) vs st) =
     immediate_items st @ map (vm_item a cm cur) vs \<and>
   review_items (fold (vm_step a cm cur) vs st) = review_items st \<and>
   snapshot_items (fold (vm_step a cm cur) vs st) = snapshot_items st"
  by (induction vs arbitrary: st)
     (simp_all add: vm_step_def accumulate_cost_def Let_def split: option.split)

lemma fold_snapshot_step:
  "immediate_items (fold (snapshot_step cur) ss st) = immediate_items st \<and>
   review_items (fold (snapshot_step cur) ss st) = review_items st \<and>
   snapshot_items (fold (snapshot_step cur) ss st) =
     snapshot_items st @ map (snapshot_item cur) ss"
  by (induction ss arbitrary: st) (simp_all add: snapshot_step_def)

lemma collect_items_lists:
  "immediate_items (collect_items a cm cur disks pips nics vms snaps) =
     map (disk_item a cm cur) (filter (\<lambda>d. \<not> aks_resource d) disks) @
     map (pip_item a cm cur) pips @
     map (nic_item a cm cur) (filter (\<lambda>d. \<not> aks_resource d) nics) @
     map (vm_item a cm cur) vms"
  "review_items (collect_items a cm cur disks pips nics vms snaps) =
     map (disk_item a cm cur) (filter aks_resource disks) @
     map (nic_item a cm cur) (filter aks_resource nics)"
  "snapshot_items (collect_items a cm cur disks pips nics vms snaps) =
     (if include_snapshots a then map (snapshot_item cur) snaps else [])"
  by (simp_all add: collect_items_def Let_def fold_disk_step fold_pip_step fold_nic_step
        fold_vm_step fold_snapshot_step)

lemma item_fields:
  "resourceType (disk_item a cm cur d) = ''disk''"
  "resourceType (pip_item a cm cur d) = ''publicIp''"
  "resourceType (nic_item a cm cur d) = ''nic''"
  "resourceType (vm_item a cm cur d) = ''vm''"
  "resourceType (snapshot_item cur d) = ''snapshot''"
  "resourceId (disk_item a cm cur d) = raw_id d"
  "resourceId (pip_item a cm cur d) = raw_id d"
  "resourceId (nic_item a cm cur d) = raw_id d"
  "resourceId (vm_item a cm cur d) = raw_id d"
  "resourceId (snapshot_item cur d) = raw_id d"
  "costLast30d (disk_item a cm cur d) = get_cost a cm (raw_id d)"
  "costLast30d (pip_item a cm cur d) = get_cost a cm (raw_id d)"
  "costLast30d (nic_item a cm cur d) = get_cost a cm (raw_id d)"
  "costLast30d (vm_item a cm cur d) = get_cost a cm (raw_id d)"
  "costLast30d (snapshot_item cur d) = None"
  "name (disk_item a cm cur d) = raw_name d"
  "name (nic_item a cm cur d) = raw_name d"
  "resourceGroup (disk_item a cm cur d) = raw_resourceGroup d"
  "resourceGroup (nic_item a cm cur d) = raw_resourceGroup d"
  by (simp_all add: disk_item_def pip_item_def nic_item_def vm_item_def snapshot_item_def Let_def)


lemma truthy_id_key: "truthy (raw_id d) \<longleftrightarrow> id_key d \<noteq> []"
  by (cases "raw_id d") (simp_all add: id_key_def lower_Nil_iff)

lemma built_findings_set:
  "set (built_findings a sn sid cm cur disks pips nics vms snaps) =
     entry sn sid ''immediate'' ` disk_item a cm cur ` {d \<in> set disks. \<not> aks_resource d} \<union>
     entry sn sid ''immediate'' ` pip_item a cm cur ` set pips \<union>
     entry sn sid ''immediate'' ` nic_item a cm cur ` {d \<in> set nics. \<not> aks_resource d} \<union>
     entry sn sid ''immediate'' ` vm_item a cm cur ` set vms \<union>
     entry sn sid ''aks_review'' ` disk_item a cm cur ` {d \<in> set disks. aks_resource d} \<union>
     entry sn sid ''aks_review'' ` nic_item a cm cur ` {d \<in> set nics. aks_resource d} \<union>
     entry sn sid ''snapshot_review'' ` snapshot_item cur `
       (if include_snapshots a then set snaps else {})"
  by (auto simp: built_findings_def build_findings_def collect_items_lists Let_def)

section \<open>Records without an identifier\<close>

text \<open>
  C10. Every record of the merged orphaned-disk list has an identifier that is present and
  not empty: a record of either listing whose \<^verbatim>\<open>id\<close> is missing or empty is not in the
  merged list, and no disk finding built from the merged list has a missing or empty
  \<^verbatim>\<open>resourceId\<close>.
\<close>

theorem disks_without_id_dropped:
  "(\<forall>d\<in>set (get_orphaned_disks by_managed by_state). truthy (raw_id d)) \<and>
   (\<forall>d\<in>set (by_managed @ by_state).
      raw_id d = None \<or> raw_id d = Some [] \<longrightarrow> d \<notin> set (get_orphaned_disks by_managed by_state)) \<and>
   (\<forall>f\<in>set (built_findings a sn sid cm cur (get_orphaned_disks by_managed by_state)
               pips nics vms snaps).
      resourceType f = ''disk'' \<longrightarrow> truthy (resourceId f))"
proof -
  have a: "\<forall>d\<in>set (get_orphaned_disks by_managed by_state). truthy (raw_id d)"
    using orphaned_disks_keys [of by_managed by_state] by (simp add: truthy_id_key)
  then have b: "\<forall>d\<in>set (by_managed @ by_state).
      raw_id d = None \<or> raw_id d = Some [] \<longrightarrow> d \<notin> set (get_orphaned_disks by_managed by_state)"
    by auto
  have c: "\<forall>f\<in>set (built_findings a sn sid cm cur (get_orphaned_disks by_managed by_state)
               pips nics vms snaps).
      resourceType f = ''disk'' \<longrightarrow> truthy (resourceId f)"
    using a by (auto simp: built_findings_set entry_fields item_fields split: if_splits)
  from a b c show ?thesis by blast
qed

theorem disks_without_id_dropped_witness:
  "get_orphaned_disks [example_resource] [example_with_id [], example_with_id ''/d1''] = [example_with_id ''/d1''] \<and>
   example_resource \<notin> set (get_orphaned_disks [example_resource] [example_with_id [], example_with_id ''/d1'']) \<and>
   example_with_id [] \<notin> set (get_orphaned_disks [example_resource] [example_with_id [], example_with_id ''/d1''])"
proof -
  have l: "lower ''/d1'' = ''/d1''" by code_simp
  have r: "raw_id example_resource = None" "raw_id (example_with_id x) = Some x" for x
    by (simp_all add: example_resource_def example_with_id_def)
  have m: "get_orphaned_disks [example_resource] [example_with_id [], example_with_id ''/d1''] = [example_with_id ''/d1'']"
    by (simp add: get_orphaned_disks_def r l Let_def lower_def)
  from disks_without_id_dropped [of "[example_resource]" "[example_with_id [], example_with_id ''/d1'']"]
  have "example_resource \<notin> set (get_orphaned_disks [example_resource] [example_with_id [], example_with_id ''/d1''])"
    "example_with_id [] \<notin> set (get_orphaned_disks [example_resource] [example_with_id [], example_with_id ''/d1''])"
    by (simp_all add: r)
  with m show ?thesis by simp
qed

section \<open>Buckets\<close>

text \<open>
  C2, as the code has it. The bucket of every finding is one of the three strings
  \<open>immediate\<close>, \<open>aks_review\<close>, \<open>snapshot_review\<close>: \<open>snapshot_review\<close> for a snapshot,
  \<open>aks_review\<close> for a disk or NIC that the classifier takes as AKS-related, \<open>immediate\<close>
  otherwise. In particular a disk classified as AKS-related yields a finding with bucket
  \<open>aks_review\<close>.
\<close>

theorem finding_buckets:
  "(\<forall>f\<in>set (built_findings a sn sid cm cur disks pips nics vms snaps).
      bucket f \<in> {''immediate'', ''aks_review'', ''snapshot_review''} \<and>
      bucket f =
        (if resourceType f = ''snapshot'' then ''snapshot_review''
         else if (resourceType f = ''disk'' \<or> resourceType f = ''nic'') \<and>
                 is_aks_related (name f) (resourceGroup f)
         then ''aks_review'' else ''immediate'')) \<and>
   (\<forall>d\<in>set disks. is_aks_related (raw_name d) (raw_resourceGroup d) \<longrightarrow>
      entry sn sid ''aks_review'' (disk_item a cm cur d)
        \<in> set (built_findings a sn sid cm cur disks pips nics vms snaps))"
proof -
  have a: "\<forall>f\<in>set (built_findings a sn sid cm cur disks pips nics vms snaps).
      bucket f \<in> {''immediate'', ''aks_review'', ''snapshot_review''} \<and>
      bucket f =
        (if resourceType f = ''snapshot'' then ''snapshot_review''
         else if (resourceType f = ''disk'' \<or> resourceType f = ''nic'') \<and>
                 is_aks_related (name f) (resourceGroup f)
         then ''aks_review'' else ''immediate'')"
    by (auto simp: built_findings_set entry_fields item_fields aks_resource_def split: if_splits)
  have b: "\<forall>d\<in>set disks. is_aks_related (raw_name d) (raw_resourceGroup d) \<longrightarrow>
      entry sn sid ''aks_review'' (disk_item a cm cur d)
        \<in> set (built_findings a sn sid cm cur disks pips nics vms snaps)"
    by (auto simp: built_findings_set aks_resource_def)
  from a b show ?thesis by blast
qed

lemma example_pvc_disk_aks: "aks_resource example_pvc_disk"
proof -
  have "is_aks_related (Some ''pvc-1234'') (Some ''rg-data'')" by code_simp
  then show ?thesis by (simp add: aks_resource_def example_pvc_disk_def example_resource_def)
qed

theorem finding_buckets_witness:
  "example_pvc_disk \<in> set [example_pvc_disk] \<and>
   is_aks_related (raw_name example_pvc_disk) (raw_resourceGroup example_pvc_disk) \<and>
   built_findings example_args ''sub'' None Map.empty CNull [example_pvc_disk] [] [] [] [] =
     [entry ''sub'' None ''aks_review'' (disk_item example_args Map.empty CNull example_pvc_disk)] \<and>
   bucket (entry ''sub'' None ''aks_review'' (disk_item example_args Map.empty CNull example_pvc_disk))
     \<in> {''immediate'', ''aks_review'', ''snapshot_review''}"
proof -
  have k: "is_aks_related (raw_name example_pvc_disk) (raw_resourceGroup example_pvc_disk)"
    using example_pvc_disk_aks by (simp add: aks_resource_def)
  have b: "built_findings example_args ''sub'' None Map.empty CNull [example_pvc_disk] [] [] [] [] =
     [entry ''sub'' None ''aks_review'' (disk_item example_args Map.empty CNull example_pvc_disk)]"
    using example_pvc_disk_aks
    by (simp add: built_findings_def build_findings_def collect_items_lists Let_def)
  from finding_buckets [of example_args "''sub''" None Map.empty CNull "[example_pvc_disk]" "[]" "[]" "[]" "[]"]
  have "bucket (entry ''sub'' None ''aks_review'' (disk_item example_args Map.empty CNull example_pvc_disk))
     \<in> {''immediate'', ''aks_review'', ''snapshot_review''}"
    unfolding b by simp
  with k b show ?thesis by simp
qed

text \<open>
  The bucket of the disk \<open>pvc-1234\<close> in resource group \<open>rg-data\<close> is the string
  \<open>aks_review\<close>, which is none of \<open>immediate\<close>, \<open>aksReview\<close>, \<open>snapshotReview\<close>.
\<close>

theorem finding_buckets_counterexample:
  "map bucket (built_findings example_args ''sub'' None Map.empty CNull [example_pvc_disk] [] [] [] [])
     = [''aks_review''] \<and>
   ''aks_review'' \<notin> {''immediate'', ''aksReview'', ''snapshotReview''}"
  using example_pvc_disk_aks
  by (simp add: built_findings_def build_findings_def collect_items_lists Let_def entry_fields)

section \<open>One finding for each record\<close>

lemma mset_map_split:
  "mset (map f (filter P xs)) + mset (map f (filter (\<lambda>x. \<not> P x) xs)) = mset (map f xs)"
  by (induction xs) simp_all

lemma get_cost_None_iff:
  "get_cost a cm rid = None \<longleftrightarrow> no_cost a \<or> \<not> truthy rid \<or> cm (lower (or_empty rid)) = None"
  by (simp add: get_cost_def)

lemma get_cost_case_insensitive:
  "lower r = lower q \<Longrightarrow> get_cost a cm (Some r) = get_cost a cm (Some q)"
  using lower_Nil_iff [of r] lower_Nil_iff [of q] by (simp add: get_cost_def)

lemma finding_key_comp:
  "finding_key \<circ> (entry sn sid b \<circ> disk_item a cm cur) =
     (\<lambda>d. (''disk'', raw_id d, get_cost a cm (raw_id d)))"
  "finding_key \<circ> (entry sn sid b \<circ> pip_item a cm cur) =
     (\<lambda>d. (''publicIp'', raw_id d, get_cost a cm (raw_id d)))"
  "finding_key \<circ> (entry sn sid b \<circ> nic_item a cm cur) =
     (\<lambda>d. (''nic'', raw_id d, get_cost a cm (raw_id d)))"
  "finding_key \<circ> (entry sn sid b \<circ> vm_item a cm cur) =
     (\<lambda>d. (''vm'', raw_id d, get_cost a cm (raw_id d)))"
  "finding_key \<circ> (entry sn sid b \<circ> snapshot_item cur) =
     (\<lambda>d. (''snapshot'', raw_id d, None))"
  by (rule ext, simp add: finding_key_def entry_fields item_fields)+

lemma built_findings_keys:
  "map finding_key (built_findings a sn sid cm cur disks pips nics vms snaps) =
     map (\<lambda>d. (''disk'', raw_id d, get_cost a cm (raw_id d))) (filter (\<lambda>d. \<not> aks_resource d) disks) @
     map (\<lambda>d. (''publicIp'', raw_id d, get_cost a cm (raw_id d))) pips @
     map (\<lambda>d. (''nic'', raw_id d, get_cost a cm (raw_id d))) (filter (\<lambda>d. \<not> aks_resource d) nics) @
     map (\<lambda>d. (''vm'', raw_id d, get_cost a cm (raw_id d))) vms @
     map (\<lambda>d. (''disk'', raw_id d, get_cost a cm (raw_id d))) (filter aks_resource disks) @
     map (\<lambda>d. (''nic'', raw_id d, get_cost a cm (raw_id d))) (filter aks_resource nics) @
     (if include_snapshots a then map (\<lambda>d. (''snapshot'', raw_id d, None)) snaps else [])"
  by (simp add: built_findings_def build_findings_def collect_items_lists Let_def
        finding_key_comp comp_assoc)

text \<open>
  C1, as the code has it. The findings built for a subscription are, up to order, one for
  each record the collectors returned (snapshots being collected only when they are
  requested). The cost of the finding of a disk, public IP, NIC or VM is \<^verbatim>\<open>get_cost\<close>
  of the record's identifier: the entry of the cost index under the lower-cased identifier,
  the same for identifiers that differ in case only, and null exactly when the cost lookup
  is disabled, the identifier is missing or empty, or the index has no entry. The cost of
  the finding of a snapshot is always null.
\<close>

theorem finding_per_record:
  "mset (map finding_key (built_findings a sn sid cm cur disks pips nics vms snaps)) =
     mset (map (\<lambda>d. (''disk'', raw_id d, get_cost a cm (raw_id d))) disks) +
     mset (map (\<lambda>d. (''publicIp'', raw_id d, get_cost a cm (raw_id d))) pips) +
     mset (map (\<lambda>d. (''nic'', raw_id d, get_cost a cm (raw_id d))) nics) +
     mset (map (\<lambda>d. (''vm'', raw_id d, get_cost a cm (raw_id d))) vms) +
     (if include_snapshots a then mset (map (\<lambda>d. (''snapshot'', raw_id d, None)) snaps) else {#})
   \<and> (\<forall>rid. get_cost a cm rid = None \<longleftrightarrow>
              no_cost a \<or> \<not> truthy rid \<or> cm (lower (or_empty rid)) = None)
   \<and> (\<forall>rid. \<not> no_cost a \<and> truthy rid \<longrightarrow> get_cost a cm rid = cm (lower (or_empty rid)))
   \<and> (\<forall>r q. lower r = lower q \<longrightarrow> get_cost a cm (Some r) = get_cost a cm (Some q))"
proof -
  define D1 where "D1 = mset (map (\<lambda>d. (''disk'', raw_id d, get_cost a cm (raw_id d)))
                                 (filter (\<lambda>d. \<not> aks_resource d) disks))"
  define D2 where "D2 = mset (map (\<lambda>d. (''disk'', raw_id d, get_cost a cm (raw_id d)))
                                 (filter aks_resource disks))"
  define N1 where "N1 = mset (map (\<lambda>d. (''nic'', raw_id d, get_cost a cm (raw_id d)))
                                 (filter (\<lambda>d. \<not> aks_resource d) nics))"
  define N2 where "N2 = mset (map (\<lambda>d. (''nic'', raw_id d, get_cost a cm (raw_id d)))
                                 (filter aks_resource nics))"
  define P where "P = mset (map (\<lambda>d. (''publicIp'', raw_id d, get_cost a cm (raw_id d))) pips)"
  define V where "V = mset (map (\<lambda>d. (''vm'', raw_id d, get_cost a cm (raw_id d))) vms)"
  define S where "S = (if include_snapshots a
                       then mset (map (\<lambda>d. (''snapshot'', raw_id d, None :: real option)) snaps)
                       else {#})"
  have d: "mset (map (\<lambda>d. (''disk'', raw_id d, get_cost a cm (raw_id d))) disks) = D2 + D1"
    unfolding D1_def D2_def
    by (rule mset_map_split [symmetric])
  have n: "mset (map (\<lambda>d. (''nic'', raw_id d, get_cost a cm (raw_id d))) nics) = N2 + N1"
    unfolding N1_def N2_def
    by (rule mset_map_split [symmetric])
  have "mset (map finding_key (built_findings a sn sid cm cur disks pips nics vms snaps)) =
          D1 + P + N1 + V + D2 + N2 + S"
    unfolding built_findings_keys D1_def D2_def N1_def N2_def P_def V_def S_def
    by (simp only: mset_append if_distrib [of mset] mset.simps add.assoc)
  also have "\<dots> = (D2 + D1) + P + (N2 + N1) + V + S"
    by (simp add: ac_simps)
  finally have m: "mset (map finding_key (built_findings a sn sid cm cur disks pips nics vms snaps)) =
     mset (map (\<lambda>d. (''disk'', raw_id d, get_cost a cm (raw_id d))) disks) +
     mset (map (\<lambda>d. (''publicIp'', raw_id d, get_cost a cm (raw_id d))) pips) +
     mset (map (\<lambda>d. (''nic'', raw_id d, get_cost a cm (raw_id d))) nics) +
     mset (map (\<lambda>d. (''vm'', raw_id d, get_cost a cm (raw_id d))) vms) +
     (if include_snapshots a then mset (map (\<lambda>d. (''snapshot'', raw_id d, None)) snaps) else {#})"
    unfolding d n P_def V_def S_def .
  have g: "\<forall>rid. \<not> no_cost a \<and> truthy rid \<longrightarrow> get_cost a cm rid = cm (lower (or_empty rid))"
    by (simp add: get_cost_def)
  have c1: "\<forall>rid. get_cost a cm rid = None \<longleftrightarrow>
              no_cost a \<or> \<not> truthy rid \<or> cm (lower (or_empty rid)) = None"
    by (simp add: get_cost_None_iff)
  have c3: "\<forall>r q. lower r = lower q \<longrightarrow> get_cost a cm (Some r) = get_cost a cm (Some q)"
    using get_cost_case_insensitive by blast
  show ?thesis by (rule conjI [OF m conjI [OF c1 conjI [OF g c3]]])
qed


theorem finding_per_record_witness:
  "mset (map finding_key
      (built_findings example_args ''sub'' None [''/d1'' \<mapsto> 25 / 2] CNull
         [example_with_id ''/D1''] [] [] [] [example_with_id ''/S1''])) =
   {#(''disk'', Some ''/D1'', Some (25 / 2)), (''snapshot'', Some ''/S1'', None)#}"
proof -
  have l: "lower ''/D1'' = ''/d1''" by code_simp
  have r: "raw_id (example_with_id x) = Some x" for x by (simp add: example_with_id_def)
  have g: "get_cost example_args [''/d1'' \<mapsto> 25 / 2] (Some ''/D1'') = Some (25 / 2)"
    by (simp add: get_cost_def example_args_def l)
  have i: "include_snapshots example_args" by (simp add: example_args_def)
  from finding_per_record [of example_args "''sub''" None "[''/d1'' \<mapsto> 25 / 2]" CNull
      "[example_with_id ''/D1'']" "[]" "[]" "[]" "[example_with_id ''/S1'']"]
  show ?thesis by (simp add: r g i)
qed

text \<open>
  With the cost lookup enabled, a snapshot whose identifier is not empty and has an entry
  in the cost index still gets a finding with a null cost.
\<close>

theorem finding_per_record_counterexample:
  "map costLast30d
     (built_findings example_args ''sub'' None [''/s1'' \<mapsto> 5] CNull [] [] [] []
        [example_with_id ''/S1'']) = [None] \<and>
   \<not> no_cost example_args \<and>
   truthy (raw_id (example_with_id ''/S1'')) \<and>
   [''/s1'' \<mapsto> (5::real)] (lower (or_empty (raw_id (example_with_id ''/S1'')))) = Some 5"
proof -
  have l: "lower ''/S1'' = ''/s1''" by code_simp
  have r: "raw_id (example_with_id x) = Some x" for x by (simp add: example_with_id_def)
  show ?thesis
    by (simp add: built_findings_def build_findings_def collect_items_lists Let_def
          entry_fields item_fields example_args_def r l)
qed


section \<open>Snapshot age\<close>





lemma snapshot_loop_only:
  assumes "x \<in> set (snapshot_loop f clock cutoff ss tick out)"
  shows "x \<in> set out \<or>
         (\<exists>s\<in>set ss. \<exists>tc dt k. raw_timeCreated s = Some tc \<and> tc \<noteq> [] \<and>
            f (replace_Z tc) = Some dt \<and> timestamp dt \<le> cutoff \<and>
            x = s\<lparr>raw_ageDays := Some (age_days (clock k) dt)\<rparr>)"
  using assms
proof (induction ss arbitrary: tick out)
  case Nil
  then show ?case by simp
next
  case (Cons s ss)
  show ?case
  proof (cases "truthy (raw_timeCreated s)")
    case False
    with Cons.prems have "x \<in> set (snapshot_loop f clock cutoff ss tick out)" by simp
    from Cons.IH [OF this] show ?thesis by auto
  next
    case True
    then obtain tc where tc: "raw_timeCreated s = Some tc" "tc \<noteq> []"
      by (cases "raw_timeCreated s") auto
    show ?thesis
    proof (cases "f (replace_Z tc)")
      case None
      with Cons.prems tc have "x \<in> set (snapshot_loop f clock cutoff ss tick out)" by simp
      from Cons.IH [OF this] show ?thesis by auto
    next
      case (Some dt)
      show ?thesis
      proof (cases "timestamp dt \<le> cutoff")
        case False
        with Cons.prems tc Some have "x \<in> set (snapshot_loop f clock cutoff ss tick out)" by simp
        from Cons.IH [OF this] show ?thesis by auto
      next
        case le: True
        with Cons.prems tc Some
        have "x \<in> set (snapshot_loop f clock cutoff ss (Suc tick)
                 (out @ [s\<lparr>raw_ageDays := Some (age_days (clock tick) dt)\<rparr>]))" by simp
        from Cons.IH [OF this]
        consider "x \<in> set out" | "x = s\<lparr>raw_ageDays := Some (age_days (clock tick) dt)\<rparr>"
          | "\<exists>s\<in>set ss. \<exists>tc dt k. raw_timeCreated s = Some tc \<and> tc \<noteq> [] \<and>
            f (replace_Z tc) = Some dt \<and> timestamp dt \<le> cutoff \<and>
            x = s\<lparr>raw_ageDays := Some (age_days (clock k) dt)\<rparr>"
          by auto
        then show ?thesis
        proof cases
          case 1
          then show ?thesis by simp
        next
          case 2
          with tc Some le show ?thesis by auto
        next
          case 3
          then show ?thesis by auto
        qed
      qed
    qed
  qed
qed






section \<open>Pagination of the cost query\<close>

lemma first_columns_nonempty: "cs \<noteq> [] \<Longrightarrow> first_columns cs rs = cs"
  by (cases rs) simp_all

lemma paginate_chain:
  assumes "chain_then_failure post link rs"
  shows "paginate post link st =
           Some \<lparr>cols = first_columns (cols st) rs,
                 all_rows = all_rows st @ rows_of rs,
                 requests = requests st @ chain_links link rs\<rparr>"
  using assms
proof (induction rs arbitrary: link st)
  case Nil
  then show ?case
    by (subst paginate.simps) (simp add: rows_of_def)
next
  case (Cons r rs)
  from Cons.prems have t: "truthy link" and p: "post (or_empty link) = Some r"
    and c: "chain_then_failure post (nextLink (props_of r)) rs"
    by simp_all
  define st' where "st' = fst (extract_from_response r (st\<lparr>requests := requests st @ [or_empty link]\<rparr>))"
  have e: "extract_from_response r (st\<lparr>requests := requests st @ [or_empty link]\<rparr>) =
             (st', nextLink (props_of r))"
    by (simp add: st'_def extract_from_response_def Let_def)
  have s: "paginate post link st = paginate post (nextLink (props_of r)) st'"
    by (subst paginate.simps) (simp add: t p e)
  have f: "cols st' = (if cols st = [] then columns (props_of r) else cols st)"
    "all_rows st' = all_rows st @ rows (props_of r)"
    "requests st' = requests st @ [or_empty link]"
    by (simp_all add: st'_def extract_from_response_def Let_def)
  show ?case
    unfolding s Cons.IH [OF c]
    by (simp add: f rows_of_def first_columns_nonempty)
qed

text \<open>
  C8. When the first request succeeds, the pages \<open>rs\<close> are fetched through their
  continuation links and the next continuation request fails, the lookup ends without an
  error: it has requested the first URL and the links up to the failing one and nothing
  after it, and it returns the index built from the columns and from all rows of the pages
  it fetched, the first page included.
\<close>

theorem pagination_failure_keeps_rows:
  assumes "post (cost_url subscription_id) = Some r0"
    "chain_then_failure post (nextLink (props_of r0)) rs"
  shows "fetch_pages post subscription_id =
           Some (Inr \<lparr>cols = first_columns [] (r0 # rs),
                      all_rows = rows_of (r0 # rs),
                      requests = cost_url subscription_id # chain_links (nextLink (props_of r0)) rs\<rparr>) \<and>
         get_cost_map_last30d_by_resource_id cv post subscription_id =
           Some (index_of cv (first_columns [] (r0 # rs)) (rows_of (r0 # rs)))"
proof -
  have a: "fetch_pages post subscription_id =
           Some (Inr \<lparr>cols = first_columns [] (r0 # rs),
                      all_rows = rows_of (r0 # rs),
                      requests = cost_url subscription_id # chain_links (nextLink (props_of r0)) rs\<rparr>)"
    using assms(1)
    by (simp add: fetch_pages_def Let_def extract_from_response_def paginate_chain [OF assms(2)]
          rows_of_def)
  then show ?thesis
    by (simp add: get_cost_map_last30d_by_resource_id_def)
qed

lemma example_costs:
  "py_float cv (CNum (25 / 2)) = Inr (25 / 2)" "py_float cv (CNum 3) = Inr 3"
proof -
  have "round_double (25 / 2) = of_int 7036874417766400 * 2 powi (3 - 52)"
    by (rule round_double_eval) simp_all
  then have a: "round_double (25 / 2) = 25 / 2" by simp
  have b: "round_double 3 = 3" using round_double_of_int [of 3] by simp
  show "py_float cv (CNum (25 / 2)) = Inr (25 / 2)" by (simp add: a)
  show "py_float cv (CNum 3) = Inr 3" by (simp add: b)
qed

lemma example_columns_indices:
  "find_indices example_columns 0 \<lparr>idx_cost = None, idx_rid = None, idx_currency = None\<rparr> =
     \<lparr>idx_cost = Some 0, idx_rid = Some 1, idx_currency = Some 2\<rparr>"
proof -
  have l: "lower ''PreTaxCost'' = ''pretaxcost''" "lower ''ResourceId'' = ''resourceid''"
    "lower ''Currency'' = ''currency''"
    by code_simp+
  show ?thesis by (simp add: example_columns_def l Let_def)
qed

theorem pagination_failure_keeps_rows_witness:
  "example_post (cost_url ''sub1'') = Some example_page1 \<and>
   chain_then_failure example_post (nextLink (props_of example_page1)) [example_page2] \<and>
   get_cost_map_last30d_by_resource_id example_conv example_post ''sub1'' =
     Some (Inr ([''/subscriptions/abc/disk1'' \<mapsto> 25 / 2, ''/subscriptions/abc/disk2'' \<mapsto> 3],
                CStr ''GBP''))"
proof -
  have p1: "example_post (cost_url ''sub1'') = Some example_page1"
    by (simp add: example_post_def)
  have p2: "example_post ''page2'' = Some example_page2"
    by (simp add: example_post_def cost_url_def)
  have p3: "example_post ''page3'' = None"
    by (simp add: example_post_def cost_url_def)
  have ch: "chain_then_failure example_post (nextLink (props_of example_page1)) [example_page2]"
    by (simp add: p2 p3 example_page1_def example_page2_def)
  have l: "lower ''/SUBSCRIPTIONS/abc/Disk1'' = ''/subscriptions/abc/disk1''"
    "lower ''/subscriptions/abc/disk2'' = ''/subscriptions/abc/disk2''"
    by code_simp+
  have ne: "example_columns \<noteq> []" by (simp add: example_columns_def)
  have ix: "index_of example_conv example_columns
              [[CNum (25 / 2), CStr ''/SUBSCRIPTIONS/abc/Disk1'', CStr ''GBP''],
               [CNum 3, CStr ''/subscriptions/abc/disk2'', CStr ''GBP'']] =
            Inr ([''/subscriptions/abc/disk1'' \<mapsto> 25 / 2, ''/subscriptions/abc/disk2'' \<mapsto> 3],
                 CStr ''GBP'')"
    by (simp add: index_of_def example_columns_indices cell_at_def float_or_zero_def l
          example_costs del: py_float.simps)
  from pagination_failure_keeps_rows
      [of example_post "''sub1''" example_page1 "[example_page2]" example_conv] p1 ch
  have "get_cost_map_last30d_by_resource_id example_conv example_post ''sub1'' =
     Some (Inr ([''/subscriptions/abc/disk1'' \<mapsto> 25 / 2, ''/subscriptions/abc/disk2'' \<mapsto> 3],
                CStr ''GBP''))"
    by (simp add: rows_of_def ne ix example_page1_def example_page2_def)
  with p1 ch show ?thesis by simp
qed


section \<open>The cost index\<close>












section \<open>Snapshots in the text and in the structured output\<close>

lemma collected_snapshots_have_age:
  assumes "get_snapshots_older_than_days fromisoformat clock days snaps = Inr out"
  shows "\<forall>x\<in>set out. raw_ageDays x \<noteq> None"
proof
  fix x assume x: "x \<in> set out"
  from assms obtain cutoff where "out = snapshot_loop fromisoformat clock cutoff snaps 1 []"
    by (auto simp: get_snapshots_older_than_days_def Let_def split: sum.splits)
  with x have "x \<in> set (snapshot_loop fromisoformat clock cutoff snaps 1 [])" by simp
  from snapshot_loop_only [OF this] show "raw_ageDays x \<noteq> None" by auto
qed

lemma age_key_Some: "raw_ageDays x = Some p \<Longrightarrow> age_key x = p"
  by (simp add: age_key_def)

lemma text_snapshots_length: "length (fst (text_snapshots snaps)) = min 20 (length snaps)"
  by (simp add: text_snapshots_def min_def)

lemma text_snapshots_sorted:
  "sorted_wrt (\<lambda>x y. age_key y \<le> age_key x) (fst (text_snapshots snaps))"
proof -
  have "sorted (map (\<lambda>x. - age_key x) (sort_key (\<lambda>x. - age_key x) snaps))"
    by (rule sorted_sort_key)
  then have "sorted_wrt (\<lambda>x y. age_key y \<le> age_key x) (sort_key (\<lambda>x. - age_key x) snaps)"
    by (simp add: sorted_map)
  then show ?thesis
    by (simp add: text_snapshots_def)
qed

lemma text_snapshots_subset: "mset (fst (text_snapshots snaps)) \<subseteq># mset snaps"
proof -
  have "mset (take 20 (sort_key (\<lambda>x. - age_key x) snaps))
          \<subseteq># mset (sort_key (\<lambda>x. - age_key x) snaps)"
    by (metis append_take_drop_id mset_append mset_subset_eq_add_left)
  then show ?thesis by (simp add: text_snapshots_def)
qed

lemma text_snapshots_oldest:
  assumes "y \<in> set (fst (text_snapshots snaps))"
    "x \<in># mset snaps - mset (fst (text_snapshots snaps))"
  shows "age_key x \<le> age_key y"
proof -
  define xs where "xs = sort_key (\<lambda>x. - age_key x) snaps"
  have s: "sorted_wrt (\<lambda>x y. age_key y \<le> age_key x) (take 20 xs @ drop 20 xs)"
    using sorted_sort_key [of "\<lambda>x. - age_key x" snaps]
    by (simp add: sorted_map xs_def)
  have "mset snaps = mset (take 20 xs) + mset (drop 20 xs)"
    by (metis append_take_drop_id mset_append mset_sort xs_def)
  then have "mset snaps - mset (take 20 xs) = mset (drop 20 xs)" by simp
  with assms(2) have x: "x \<in> set (drop 20 xs)"
    by (simp add: text_snapshots_def xs_def)
  from assms(1) have y: "y \<in> set (take 20 xs)"
    by (simp add: text_snapshots_def xs_def)
  from s x y show ?thesis
    unfolding sorted_wrt_append by blast
qed

lemma text_snapshots_by_age:
  assumes "\<forall>x\<in>set snaps. raw_ageDays x \<noteq> None"
  shows "sorted_wrt (\<lambda>x y. \<exists>p q. raw_ageDays x = Some p \<and> raw_ageDays y = Some q \<and> q \<le> p)
           (fst (text_snapshots snaps)) \<and>
         (\<forall>y\<in>set (fst (text_snapshots snaps)).
            \<forall>x\<in>#mset snaps - mset (fst (text_snapshots snaps)).
              \<exists>p q. raw_ageDays x = Some p \<and> raw_ageDays y = Some q \<and> p \<le> q)"
proof -
  have sub: "set (fst (text_snapshots snaps)) \<subseteq> set snaps"
    using text_snapshots_subset [of snaps] by (metis set_mset_mono set_mset_mset)
  have age: "\<exists>p. raw_ageDays x = Some p \<and> age_key x = p" if "x \<in> set snaps" for x
    using assms that by (auto simp: age_key_def)
  have "sorted_wrt (\<lambda>x y. \<exists>p q. raw_ageDays x = Some p \<and> raw_ageDays y = Some q \<and> q \<le> p)
           (fst (text_snapshots snaps))"
  proof (rule sorted_wrt_mono_rel [OF _ text_snapshots_sorted])
    fix x y
    assume "x \<in> set (fst (text_snapshots snaps))" "y \<in> set (fst (text_snapshots snaps))"
      "age_key y \<le> age_key x"
    with sub age [of x] age [of y]
    show "\<exists>p q. raw_ageDays x = Some p \<and> raw_ageDays y = Some q \<and> q \<le> p" by auto
  qed
  moreover have "\<forall>y\<in>set (fst (text_snapshots snaps)).
            \<forall>x\<in>#mset snaps - mset (fst (text_snapshots snaps)).
              \<exists>p q. raw_ageDays x = Some p \<and> raw_ageDays y = Some q \<and> p \<le> q"
  proof (intro ballI)
    fix y x
    assume y: "y \<in> set (fst (text_snapshots snaps))"
      and x: "x \<in># mset snaps - mset (fst (text_snapshots snaps))"
    from x have "x \<in> set snaps" by (metis in_diffD set_mset_mset)
    with y sub age [of x] age [of y] text_snapshots_oldest [OF y x]
    show "\<exists>p q. raw_ageDays x = Some p \<and> raw_ageDays y = Some q \<and> p \<le> q" by auto
  qed
  ultimately show ?thesis by blast
qed

lemma snapshot_findings_structured:
  assumes "include_snapshots a" "is_structured a"
  shows "filter (\<lambda>f. resourceType f = ''snapshot'')
           (subscription_findings a sn sid cm cur disks pips nics vms snaps) =
         map (\<lambda>s. entry sn sid ''snapshot_review'' (snapshot_item cur s)) snaps"
  using assms
  by (simp add: subscription_findings_def built_findings_def build_findings_def
        collect_items_lists Let_def filter_map comp_def entry_fields item_fields)

lemma findings_loop_concat:
  "findings_loop a ss acc =
     acc @ concat (map (\<lambda>s. subscription_findings a (scan_name s) (scan_id s) (scan_cost_map s)
                           (scan_currency s) (scan_disks s) (scan_public_ips s) (scan_nics s)
                           (scan_vms s) (scan_snapshots s)) ss)"
  by (induction ss arbitrary: acc) simp_all

lemma printed_loop_concat:
  "printed_loop a ss acc =
     acc @ concat (map (\<lambda>s. case snapshot_section a (scan_snapshots s) of
                              None \<Rightarrow> [] | Some (shown, remainder) \<Rightarrow> shown) ss)"
  by (induction ss arbitrary: acc) simp_all

lemma all_snapshot_findings:
  assumes "include_snapshots a" "is_structured a"
  shows "filter (\<lambda>f. resourceType f = ''snapshot'') (all_findings_of a subs) =
         concat (map (\<lambda>s. map (\<lambda>x. entry (scan_name s) (scan_id s) ''snapshot_review''
                                     (snapshot_item (scan_currency s) x)) (scan_snapshots s)) subs)"
  by (simp add: all_findings_of_def findings_loop_concat filter_concat comp_def
        snapshot_findings_structured [OF assms])

text \<open>
  C9, as the code has it. The text output prints, for each subscription, the snapshots of
  that subscription sorted by descending age and cut to the first twenty: at most twenty,
  each a snapshot of the subscription, none younger than a snapshot of the subscription
  that is left out, with the number left out when the subscription has more than twenty.
  The findings of the JSON document and the rows of the CSV output hold, in order, one
  snapshot finding for every snapshot of every subscription, however many there are. The
  snapshots are those the collector returns, each with its \<^verbatim>\<open>ageDays\<close>.
\<close>

theorem text_truncated_structured_complete:
  assumes "\<forall>s\<in>set subs. \<forall>x\<in>set (scan_snapshots s). raw_ageDays x \<noteq> None"
  shows
  "(include_snapshots a \<and> \<not> is_structured a \<longrightarrow>
     (\<forall>s\<in>set subs. \<exists>shown remainder.
        snapshot_section a (scan_snapshots s) = Some (shown, remainder) \<and>
        length shown = min 20 (length (scan_snapshots s)) \<and>
        sorted_wrt (\<lambda>x y. \<exists>p q. raw_ageDays x = Some p \<and> raw_ageDays y = Some q \<and> q \<le> p)
          shown \<and>
        mset shown \<subseteq># mset (scan_snapshots s) \<and>
        (\<forall>y\<in>set shown. \<forall>x\<in>#mset (scan_snapshots s) - mset shown.
           \<exists>p q. raw_ageDays x = Some p \<and> raw_ageDays y = Some q \<and> p \<le> q) \<and>
        remainder = (if 20 < length (scan_snapshots s)
                then Some (length (scan_snapshots s) - 20) else None))) \<and>
   (include_snapshots a \<and> output_format a = ''json'' \<longrightarrow>
      filter (\<lambda>f. resourceType f = ''snapshot'') (json_findings (all_findings_of a subs)) =
      concat (map (\<lambda>s. map (\<lambda>x. entry (scan_name s) (scan_id s) ''snapshot_review''
                                  (snapshot_item (scan_currency s) x)) (scan_snapshots s)) subs)) \<and>
   (include_snapshots a \<and> output_format a = ''csv'' \<longrightarrow>
      filter (\<lambda>f. resourceType f = ''snapshot'') (csv_rows (all_findings_of a subs)) =
      concat (map (\<lambda>s. map (\<lambda>x. entry (scan_name s) (scan_id s) ''snapshot_review''
                                  (snapshot_item (scan_currency s) x)) (scan_snapshots s)) subs))"
proof -
  have t: "\<exists>shown remainder.
        snapshot_section a (scan_snapshots s) = Some (shown, remainder) \<and>
        length shown = min 20 (length (scan_snapshots s)) \<and>
        sorted_wrt (\<lambda>x y. \<exists>p q. raw_ageDays x = Some p \<and> raw_ageDays y = Some q \<and> q \<le> p)
          shown \<and>
        mset shown \<subseteq># mset (scan_snapshots s) \<and>
        (\<forall>y\<in>set shown. \<forall>x\<in>#mset (scan_snapshots s) - mset shown.
           \<exists>p q. raw_ageDays x = Some p \<and> raw_ageDays y = Some q \<and> p \<le> q) \<and>
        remainder = (if 20 < length (scan_snapshots s)
                then Some (length (scan_snapshots s) - 20) else None)"
    if "include_snapshots a" "\<not> is_structured a" "s \<in> set subs" for s
  proof -
    define snaps where "snaps = scan_snapshots s"
    have ages: "\<forall>x\<in>set snaps. raw_ageDays x \<noteq> None"
      using assms that(3) by (simp add: snaps_def)
    have sec: "snapshot_section a snaps = Some (fst (text_snapshots snaps), snd (text_snapshots snaps))"
      using that(1,2) by (simp add: snapshot_section_def text_snapshots_def)
    have rem: "snd (text_snapshots snaps) =
                  (if 20 < length snaps then Some (length snaps - 20) else None)"
      by (simp add: text_snapshots_def)
    note by_age = text_snapshots_by_age [OF ages]
    show ?thesis
      unfolding snaps_def [symmetric]
      apply (rule exI [of _ "fst (text_snapshots snaps)"])
      apply (rule exI [of _ "snd (text_snapshots snaps)"])
      apply (intro conjI)
           apply (rule sec)
          apply (rule text_snapshots_length)
         apply (rule by_age [THEN conjunct1])
        apply (rule text_snapshots_subset)
       apply (rule by_age [THEN conjunct2])
      apply (rule rem)
      done
  qed
  have j: "include_snapshots a \<and> output_format a = ''json'' \<longrightarrow>
      filter (\<lambda>f. resourceType f = ''snapshot'') (json_findings (all_findings_of a subs)) =
      concat (map (\<lambda>s. map (\<lambda>x. entry (scan_name s) (scan_id s) ''snapshot_review''
                                  (snapshot_item (scan_currency s) x)) (scan_snapshots s)) subs)"
    using all_snapshot_findings [of a subs] by (simp add: json_findings_def is_structured_def)
  have c: "include_snapshots a \<and> output_format a = ''csv'' \<longrightarrow>
      filter (\<lambda>f. resourceType f = ''snapshot'') (csv_rows (all_findings_of a subs)) =
      concat (map (\<lambda>s. map (\<lambda>x. entry (scan_name s) (scan_id s) ''snapshot_review''
                                  (snapshot_item (scan_currency s) x)) (scan_snapshots s)) subs)"
    using all_snapshot_findings [of a subs] by (simp add: csv_rows_def is_structured_def)
  have t': "include_snapshots a \<and> \<not> is_structured a \<longrightarrow>
     (\<forall>s\<in>set subs. \<exists>shown remainder.
        snapshot_section a (scan_snapshots s) = Some (shown, remainder) \<and>
        length shown = min 20 (length (scan_snapshots s)) \<and>
        sorted_wrt (\<lambda>x y. \<exists>p q. raw_ageDays x = Some p \<and> raw_ageDays y = Some q \<and> q \<le> p)
          shown \<and>
        mset shown \<subseteq># mset (scan_snapshots s) \<and>
        (\<forall>y\<in>set shown. \<forall>x\<in>#mset (scan_snapshots s) - mset shown.
           \<exists>p q. raw_ageDays x = Some p \<and> raw_ageDays y = Some q \<and> p \<le> q) \<and>
        remainder = (if 20 < length (scan_snapshots s)
                then Some (length (scan_snapshots s) - 20) else None))"
    using t by blast
  show ?thesis by (rule conjI [OF t' conjI [OF j c]])
qed

lemma example_snapshots_ages:
  "\<forall>x\<in>set example_snapshots. raw_ageDays x \<noteq> None"
  by (simp add: example_snapshots_def)

lemma example_snapshots_shown:
  "text_snapshots example_snapshots =
     (map (\<lambda>n. example_resource\<lparr>raw_id := Some ''/snap'', raw_ageDays := Some n\<rparr>)
        [22, 21, 20, 19, 18, 17, 16, 15, 14, 13, 12, 11, 10, 9, 8, 7, 6, 5, 4, 3],
      Some 2)"
proof -
  have u: "[1..22] = [1, 2, 3, 4, 5, 6, 7, 8, 9, 10, 11, 12, 13, 14, 15, 16, 17, 18, 19, 20, 21, 22 :: int]"
    by (simp add: upto_rec1)
  have k: "age_key (example_resource\<lparr>raw_id := Some ''/snap'', raw_ageDays := Some n\<rparr>) = n" for n
    by (simp add: age_key_def)
  show ?thesis
    by (simp add: text_snapshots_def example_snapshots_def u k)
qed

theorem text_truncated_structured_complete_witness:
  "map raw_ageDays (scan_snapshots example_scan) = map Some [1..22] \<and>
   include_snapshots example_text_args \<and> \<not> is_structured example_text_args \<and>
   include_snapshots example_args \<and> output_format example_args = ''json'' \<and>
   snapshot_section example_text_args (scan_snapshots example_scan) =
     Some (map (\<lambda>n. example_resource\<lparr>raw_id := Some ''/snap'', raw_ageDays := Some n\<rparr>)
             [22, 21, 20, 19, 18, 17, 16, 15, 14, 13, 12, 11, 10, 9, 8, 7, 6, 5, 4, 3],
           Some 2) \<and>
   sorted_wrt (\<lambda>x y. \<exists>p q. raw_ageDays x = Some p \<and> raw_ageDays y = Some q \<and> q \<le> p)
     (map (\<lambda>n. example_resource\<lparr>raw_id := Some ''/snap'', raw_ageDays := Some n\<rparr>)
        [22, 21, 20, 19, 18, 17, 16, 15, 14, 13, 12, 11, 10, 9, 8, 7, 6, 5, 4, 3]) \<and>
   filter (\<lambda>f. resourceType f = ''snapshot'')
     (json_findings (all_findings_of example_args [example_scan])) =
     map (\<lambda>x. entry ''sub'' None ''snapshot_review'' (snapshot_item CNull x)) example_snapshots"
proof -
  have h: "\<forall>s\<in>set [example_scan]. \<forall>x\<in>set (scan_snapshots s). raw_ageDays x \<noteq> None"
    using example_snapshots_ages by (simp add: example_scan_def)
  have a: "include_snapshots example_text_args" "\<not> is_structured example_text_args"
    "include_snapshots example_args" "output_format example_args = ''json''"
    by (simp_all add: example_text_args_def example_args_def is_structured_def)
  have n: "example_snapshots \<noteq> []" by (simp add: example_snapshots_def)
  have sc: "scan_snapshots example_scan = example_snapshots" "scan_name example_scan = ''sub''"
    "scan_id example_scan = None" "scan_currency example_scan = CNull"
    by (simp_all add: example_scan_def)
  have sec: "snapshot_section example_text_args (scan_snapshots example_scan) =
     Some (map (\<lambda>n. example_resource\<lparr>raw_id := Some ''/snap'', raw_ageDays := Some n\<rparr>)
             [22, 21, 20, 19, 18, 17, 16, 15, 14, 13, 12, 11, 10, 9, 8, 7, 6, 5, 4, 3],
           Some 2)"
    using a(1,2) n by (simp add: snapshot_section_def sc example_snapshots_shown)
  note th = text_truncated_structured_complete [OF h]
  from th [of example_text_args] a(1,2)
  have "\<exists>shown remainder.
        snapshot_section example_text_args (scan_snapshots example_scan) = Some (shown, remainder) \<and>
        length shown = min 20 (length (scan_snapshots example_scan)) \<and>
        sorted_wrt (\<lambda>x y. \<exists>p q. raw_ageDays x = Some p \<and> raw_ageDays y = Some q \<and> q \<le> p)
          shown"
    by (elim conjE) (simp only: list.set ball_simps, blast)
  then have so: "sorted_wrt (\<lambda>x y. \<exists>p q. raw_ageDays x = Some p \<and> raw_ageDays y = Some q \<and> q \<le> p)
     (map (\<lambda>n. example_resource\<lparr>raw_id := Some ''/snap'', raw_ageDays := Some n\<rparr>)
        [22, 21, 20, 19, 18, 17, 16, 15, 14, 13, 12, 11, 10, 9, 8, 7, 6, 5, 4, 3])"
    unfolding sec by (elim exE conjE) (simp only: option.inject prod.inject)
  from th [of example_args] a(3,4)
  have js: "filter (\<lambda>f. resourceType f = ''snapshot'')
     (json_findings (all_findings_of example_args [example_scan])) =
     map (\<lambda>x. entry ''sub'' None ''snapshot_review'' (snapshot_item CNull x)) example_snapshots"
    by (elim conjE) (simp add: sc)
  have ages: "map raw_ageDays (scan_snapshots example_scan) = map Some [1..22]"
    by (simp add: sc example_snapshots_def comp_def)
  show ?thesis
    by (rule conjI [OF ages conjI [OF a(1) conjI [OF a(2) conjI [OF a(3) conjI [OF a(4)
          conjI [OF sec conjI [OF so js]]]]]]])
qed

text \<open>
  A run in text mode over two subscriptions with 22 snapshots each prints 40 snapshots,
  twenty in each pass of the loop.
\<close>

theorem text_truncated_structured_complete_counterexample:
  "include_snapshots example_text_args \<and> \<not> is_structured example_text_args \<and>
   length (printed_snapshots example_text_args [example_scan, example_scan]) = 40 \<and>
   \<not> length (printed_snapshots example_text_args [example_scan, example_scan]) \<le> 20"
proof -
  have a: "include_snapshots example_text_args" "\<not> is_structured example_text_args"
    by (simp_all add: example_text_args_def example_args_def is_structured_def)
  have n: "example_snapshots \<noteq> []" "length example_snapshots = 22"
    by (simp_all add: example_snapshots_def)
  have sc: "scan_snapshots example_scan = example_snapshots" by (simp add: example_scan_def)
  have sec: "snapshot_section example_text_args example_snapshots =
               Some (text_snapshots example_snapshots)"
    using a n(1) by (simp add: snapshot_section_def)
  have l: "length (fst (text_snapshots example_snapshots)) = 20"
    using text_snapshots_length [of example_snapshots] n(2) by simp
  have "length (printed_snapshots example_text_args [example_scan, example_scan]) = 40"
    using l by (auto simp: printed_snapshots_def sc sec split: prod.split)
  with a show ?thesis by simp
qed

end
